(* ===== verification/Tether_Prelude.thy ===== *)
theory Tether_Prelude
  imports Main "HOL-Library.Word"
begin

unbundle bit_operations_syntax

text \<open>
  Shared vocabulary of the development: machine integers at their width, the result type of
  code that touches memory, byte buffers with explicit bounds, little- and big-endian fields.

  A C object (an array, or what is left of it behind a pointer) is a \<^typ>\<open>8 word list\<close>; its
  length is the size of the object, which the code does not see.  A read or write outside the
  object is undefined behaviour in C and is the value \<open>Inl Oob_Read\<close> or \<open>Inl Oob_Write\<close> here, so
  that memory safety is a theorem and not an assumption.  A loop that the code does not bound
  takes fuel and gives \<open>Inl No_Fuel\<close> when it runs out of it.

  The hosts (macOS on arm64 and x86-64) are little endian: a \<open>uint32_t\<close> field of a packed struct
  is four bytes, least significant first, and \<open>htons\<close>/\<open>htonl\<close> swap, so that storing \<open>htons(v)\<close>
  writes the big-endian bytes of \<open>v\<close>.
\<close>

section \<open>Machine integers\<close>

type_synonym byte = "8 word"
type_synonym u16 = "16 word"
type_synonym u32 = "32 word"
type_synonym buffer = "byte list"

text \<open>\<open>size_t\<close> is 64 bits wide; it is a \<^typ>\<open>nat\<close> with the wrap-around written out.\<close>

definition size_sub :: "nat \<Rightarrow> nat \<Rightarrow> nat" where
  "size_sub a b = nat ((int a - int b) mod 2 ^ 64)"

definition size_add :: "nat \<Rightarrow> nat \<Rightarrow> nat" where
  "size_add a b = (a + b) mod 2 ^ 64"

text \<open>The conversion \<open>(int)n\<close> of a size.\<close>

definition c_int :: "nat \<Rightarrow> int" where
  "c_int n = sint (word_of_nat n :: u32)"

lemma size_sub_le [simp]: "b \<le> a \<Longrightarrow> a < 2 ^ 64 \<Longrightarrow> size_sub a b = a - b"
  by (simp add: size_sub_def flip: of_nat_diff)

lemma size_sub_wraps: "a < b \<Longrightarrow> b < 2 ^ 64 \<Longrightarrow> size_sub a b = 2 ^ 64 + a - b"
proof -
  assume ab: "a < b" "b < 2 ^ 64"
  have "(int a - int b) mod 2 ^ 64 = int a - int b + 2 ^ 64"
    using ab by (subst mod_add_self2 [symmetric], intro mod_pos_pos_trivial) auto
  with ab show ?thesis by (simp add: size_sub_def)
qed

lemma size_add_small [simp]: "a + b < 2 ^ 64 \<Longrightarrow> size_add a b = a + b"
  by (simp add: size_add_def)

lemma c_int_small [simp]: "n < 2 ^ 31 \<Longrightarrow> c_int n = int n"
proof -
  assume "n < 2 ^ 31"
  then show ?thesis
    by (simp add: c_int_def signed_of_nat signed_take_bit_int_eq_self)
qed

lemma unat_u32_less [simp]: "unat (w :: u32) < 4294967296"
  using unsigned_less [of w] by simp

lemma unat_u16_less [simp]: "unat (w :: u16) < 65536"
  using unsigned_less [of w] by simp

lemma unat_byte_less [simp]: "unat (w :: byte) < 256"
  using unsigned_less [of w] by simp

lemma u32_add_nowrap: "unat a + unat b < 4294967296 \<Longrightarrow> unat (a + b :: u32) = unat a + unat b"
  by (simp add: unat_word_ariths)

lemma u32_modulus: "(4294967296 :: u32) = 0"
  by simp

lemma u32_le_iff: "(a :: u32) \<le> b \<longleftrightarrow> unat a \<le> unat b"
  by (rule word_le_nat_alt)

lemma unat_of_nat_u32 [simp]: "n < 4294967296 \<Longrightarrow> unat (word_of_nat n :: u32) = n"
  by (simp add: unat_of_nat)

section \<open>Results of code that touches memory\<close>

datatype fault = Oob_Read | Oob_Write | No_Fuel

type_synonym 'a run = "fault + 'a"

fun bindR :: "'a run \<Rightarrow> ('a \<Rightarrow> 'b run) \<Rightarrow> 'b run" where
  "bindR (Inl e) f = Inl e"
| "bindR (Inr x) f = f x"

text \<open>Total correctness: the code has a defined result and it satisfies \<open>P\<close>.\<close>

definition runs_to :: "'a run \<Rightarrow> ('a \<Rightarrow> bool) \<Rightarrow> bool" where
  "runs_to m P = (case m of Inl _ \<Rightarrow> False | Inr x \<Rightarrow> P x)"

named_theorems run_simps \<open>how \<open>runs_to\<close> goes through the operations\<close>

lemma runs_to_Inr [simp]: "runs_to (Inr x) P = P x"
  by (simp add: runs_to_def)

lemma runs_to_Inl [simp]: "runs_to (Inl e) P = False"
  by (simp add: runs_to_def)

lemma runs_to_bind [run_simps]: "runs_to (bindR m f) P = runs_to m (\<lambda>x. runs_to (f x) P)"
  by (cases m) auto

lemma runs_to_if [run_simps]:
  "runs_to (if b then m else n) P = (if b then runs_to m P else runs_to n P)"
  by simp

lemma runs_to_mono: "runs_to m P \<Longrightarrow> (\<And>x. P x \<Longrightarrow> Q x) \<Longrightarrow> runs_to m Q"
  by (cases m) auto

lemma runs_to_conj: "runs_to m P \<Longrightarrow> runs_to m Q \<Longrightarrow> runs_to m (\<lambda>x. P x \<and> Q x)"
  by (cases m) auto

lemma runs_toE: "runs_to m P \<Longrightarrow> (\<And>x. m = Inr x \<Longrightarrow> P x \<Longrightarrow> R) \<Longrightarrow> R"
  by (cases m) auto

lemma runs_to_iff: "runs_to m P \<longleftrightarrow> (\<exists>x. m = Inr x \<and> P x)"
  by (cases m) auto

lemma bindR_eq_Inr: "bindR m f = Inr y \<longleftrightarrow> (\<exists>x. m = Inr x \<and> f x = Inr y)"
  by (cases m) auto

lemma bindR_cong [fundef_cong]:
  "m = m' \<Longrightarrow> (\<And>x. m' = Inr x \<Longrightarrow> f x = g x) \<Longrightarrow> bindR m f = bindR m' g"
  by (cases m') auto

lemma bindR_assoc: "bindR (bindR m f) g = bindR m (\<lambda>x. bindR (f x) g)"
  by (cases m) auto

section \<open>Bounded reads and writes\<close>

definition rd_bytes :: "buffer \<Rightarrow> nat \<Rightarrow> nat \<Rightarrow> buffer run" where
  "rd_bytes buf off n =
     (if off + n \<le> length buf then Inr (take n (drop off buf)) else Inl Oob_Read)"

definition wr_bytes :: "buffer \<Rightarrow> nat \<Rightarrow> buffer \<Rightarrow> buffer run" where
  "wr_bytes buf off bs =
     (if off + length bs \<le> length buf
      then Inr (take off buf @ bs @ drop (off + length bs) buf) else Inl Oob_Write)"

definition rd_u8 :: "buffer \<Rightarrow> nat \<Rightarrow> byte run" where
  "rd_u8 buf off = (if off < length buf then Inr (buf ! off) else Inl Oob_Read)"

lemma rd_bytes_runs [run_simps]:
  "runs_to (rd_bytes buf off n) P \<longleftrightarrow> off + n \<le> length buf \<and> P (take n (drop off buf))"
  by (simp add: rd_bytes_def)

lemma rd_u8_runs [run_simps]: "runs_to (rd_u8 buf off) P \<longleftrightarrow> off < length buf \<and> P (buf ! off)"
  by (simp add: rd_u8_def)

lemma wr_bytes_runs [run_simps]:
  "runs_to (wr_bytes buf off bs) P \<longleftrightarrow>
     off + length bs \<le> length buf \<and> P (take off buf @ bs @ drop (off + length bs) buf)"
  by (simp add: wr_bytes_def)

lemma rd_bytes_ok [simp]:
  "off + n \<le> length buf \<Longrightarrow> rd_bytes buf off n = Inr (take n (drop off buf))"
  by (simp add: rd_bytes_def)

lemma rd_bytes_length: "rd_bytes buf off n = Inr bs \<Longrightarrow> length bs = n"
  by (auto simp: rd_bytes_def split: if_splits)

lemma wr_bytes_ok [simp]:
  "off + length bs \<le> length buf \<Longrightarrow>
     wr_bytes buf off bs = Inr (take off buf @ bs @ drop (off + length bs) buf)"
  by (simp add: wr_bytes_def)

lemma wr_bytes_length: "wr_bytes buf off bs = Inr buf' \<Longrightarrow> length buf' = length buf"
  by (auto simp: wr_bytes_def split: if_splits)

text \<open>Several stores in the order of the code; the first one out of bounds faults.\<close>

fun wr_all :: "buffer \<Rightarrow> (nat \<times> buffer) list \<Rightarrow> buffer run" where
  "wr_all buf [] = Inr buf"
| "wr_all buf ((off, bs) # ws) = bindR (wr_bytes buf off bs) (\<lambda>buf'. wr_all buf' ws)"

lemma wr_all_length: "wr_all buf ws = Inr buf' \<Longrightarrow> length buf' = length buf"
  by (induction ws arbitrary: buf) (fastforce simp: bindR_eq_Inr dest: wr_bytes_length)+

lemma wr_all_defined:
  "(\<forall>(off, bs) \<in> set ws. off + length bs \<le> length buf) \<Longrightarrow>
     runs_to (wr_all buf ws) (\<lambda>buf'. length buf' = length buf)"
proof (induction ws arbitrary: buf)
  case (Cons w ws)
  obtain off bs where w: "w = (off, bs)" by (cases w)
  let ?buf = "take off buf @ bs @ drop (off + length bs) buf"
  have "length ?buf = length buf" using Cons.prems w by simp
  then show ?case using Cons.prems w Cons.IH [of ?buf] by (simp add: run_simps)
qed simp

text \<open>The byte at \<open>k\<close> after the stores \<open>ws\<close> where it was \<open>b\<close> before them.\<close>

fun stored_at :: "(nat \<times> buffer) list \<Rightarrow> nat \<Rightarrow> byte \<Rightarrow> byte" where
  "stored_at [] k b = b"
| "stored_at ((off, bs) # ws) k b =
     stored_at ws k (if off \<le> k \<and> k < off + length bs then bs ! (k - off) else b)"

lemma wr_bytes_nth:
  "off + length bs \<le> length buf \<Longrightarrow> k < length buf \<Longrightarrow>
     (take off buf @ bs @ drop (off + length bs) buf) ! k =
       (if off \<le> k \<and> k < off + length bs then bs ! (k - off) else buf ! k)"
  by (auto simp: nth_append)

lemma wr_all_nth:
  "wr_all buf ws = Inr buf' \<Longrightarrow> k < length buf \<Longrightarrow> buf' ! k = stored_at ws k (buf ! k)"
proof (induction ws arbitrary: buf)
  case (Cons w ws)
  obtain off bs where w: "w = (off, bs)" by (cases w)
  let ?buf = "take off buf @ bs @ drop (off + length bs) buf"
  from Cons.prems w have b: "off + length bs \<le> length buf" "wr_all ?buf ws = Inr buf'"
    by (auto simp: wr_bytes_def split: if_splits)
  then have "buf' ! k = stored_at ws k (?buf ! k)" using Cons.prems by (intro Cons.IH) auto
  then show ?case using w b Cons.prems by (simp add: wr_bytes_nth)
qed simp

section \<open>Fields of packed structs\<close>

definition le32 :: "u32 \<Rightarrow> buffer" where
  "le32 w = [ucast w, ucast (drop_bit 8 w), ucast (drop_bit 16 w), ucast (drop_bit 24 w)]"

definition be32 :: "u32 \<Rightarrow> buffer" where
  "be32 w = rev (le32 w)"

definition be16 :: "u16 \<Rightarrow> buffer" where
  "be16 w = [ucast (drop_bit 8 w), ucast w]"

text \<open>Reading a field of the bytes of a struct: \<open>o\<close> is the offset of the field.\<close>

definition u32_of :: "byte \<Rightarrow> byte \<Rightarrow> byte \<Rightarrow> byte \<Rightarrow> u32" where
  "u32_of a b c d = ucast a OR push_bit 8 (ucast b) OR push_bit 16 (ucast c) OR push_bit 24 (ucast d)"

definition u32_at :: "buffer \<Rightarrow> nat \<Rightarrow> u32" where
  "u32_at s k = u32_of (s ! k) (s ! (k + 1)) (s ! (k + 2)) (s ! (k + 3))"

definition be32_at :: "buffer \<Rightarrow> nat \<Rightarrow> u32" where
  "be32_at s k = u32_of (s ! (k + 3)) (s ! (k + 2)) (s ! (k + 1)) (s ! k)"

definition be16_at :: "buffer \<Rightarrow> nat \<Rightarrow> u16" where
  "be16_at s k = push_bit 8 (ucast (s ! k)) OR ucast (s ! (k + 1))"

definition rd_u32 :: "buffer \<Rightarrow> nat \<Rightarrow> u32 run" where
  "rd_u32 buf off = bindR (rd_bytes buf off 4) (\<lambda>s. Inr (u32_at s 0))"

lemma length_le32 [simp]: "length (le32 w) = 4"
  by (simp add: le32_def)

lemma length_be32 [simp]: "length (be32 w) = 4"
  by (simp add: be32_def)

lemma length_be16 [simp]: "length (be16 w) = 2"
  by (simp add: be16_def)

lemma u32_of_le32:
  "u32_of (ucast w) (ucast (drop_bit 8 w)) (ucast (drop_bit 16 w)) (ucast (drop_bit 24 w)) = w"
proof (rule bit_word_eqI)
  fix n assume "n < LENGTH(32)"
  then consider "n < 8" | "8 \<le> n" "n < 16" | "16 \<le> n" "n < 24" | "24 \<le> n" "n < 32"
    by fastforce
  then show "bit (u32_of (ucast w) (ucast (drop_bit 8 w)) (ucast (drop_bit 16 w))
      (ucast (drop_bit 24 w))) n = bit w n"
    by cases (auto simp: u32_of_def bit_simps)
qed

lemma byte_bit_high: "8 \<le> n \<Longrightarrow> \<not> bit (a :: byte) n"
  by (auto dest: bit_imp_le_length)

lemma le32_u32_of: "le32 (u32_of a b c d) = [a, b, c, d]"
  unfolding le32_def u32_of_def
  by (auto intro!: bit_word_eqI simp: bit_simps byte_bit_high)

lemma u32_at_0 [simp]: "u32_at (a # b # c # d # s) 0 = u32_of a b c d"
  by (simp add: u32_at_def)

lemma u32_at_le32 [simp]: "u32_at (le32 w @ s) 0 = w"
  by (simp add: le32_def u32_at_def u32_of_le32)

lemma u32_at_le32_single [simp]: "u32_at (le32 w) 0 = w"
  using u32_at_le32 [of w "[]"] by simp

lemma u32_at_append [simp]: "length p \<le> k \<Longrightarrow> u32_at (p @ s) k = u32_at s (k - length p)"
  by (simp add: u32_at_def nth_append Suc_diff_le)

lemma be32_at_be32 [simp]: "be32_at (be32 w @ s) 0 = w"
  by (simp add: be32_def le32_def be32_at_def u32_of_le32)

lemma be32_at_append [simp]: "length p \<le> k \<Longrightarrow> be32_at (p @ s) k = be32_at s (k - length p)"
  by (simp add: be32_at_def nth_append Suc_diff_le)

lemma be16_at_be16 [simp]: "be16_at (be16 w @ s) 0 = w"
  unfolding be16_def be16_at_def
  by (auto intro!: bit_word_eqI simp: bit_simps)

lemma be16_at_append [simp]: "length p \<le> k \<Longrightarrow> be16_at (p @ s) k = be16_at s (k - length p)"
  by (simp add: be16_at_def nth_append Suc_diff_le)

lemma u32_at_drop: "off + k + 4 \<le> length buf \<Longrightarrow> u32_at (drop off buf) k = u32_at buf (off + k)"
  by (simp add: u32_at_def add.assoc)

lemma u32_at_take: "k + 4 \<le> n \<Longrightarrow> u32_at (take n buf) k = u32_at buf k"
  by (simp add: u32_at_def)

lemma rd_u32_runs [run_simps]:
  "runs_to (rd_u32 buf off) P \<longleftrightarrow> off + 4 \<le> length buf \<and> P (u32_at buf off)"
  by (auto simp: rd_u32_def run_simps u32_at_take u32_at_drop)

lemma rd_u32_ok [simp]: "off + 4 \<le> length buf \<Longrightarrow> rd_u32 buf off = Inr (u32_at buf off)"
  using rd_u32_runs [of buf off "\<lambda>x. x = u32_at buf off"] by (auto simp: runs_to_iff)

lemma four_bytes: "4 \<le> length s \<Longrightarrow> \<exists>a b c d r. s = a # b # c # d # r"
  by (auto simp: numeral_eq_Suc Suc_le_length_iff)

lemma le32_of_at: "4 \<le> length s \<Longrightarrow> le32 (u32_at s 0) = take 4 s"
  by (auto dest!: four_bytes simp: le32_u32_of)

lemma be32_of_at: "4 \<le> length s \<Longrightarrow> be32 (be32_at s 0) = take 4 s"
  by (auto dest!: four_bytes simp: be32_def be32_at_def le32_u32_of)

lemma be16_at_Cons: "0 < k \<Longrightarrow> be16_at (x # s) k = be16_at s (k - 1)"
  by (cases k) (auto simp: be16_at_def)

lemma u32_at_Cons: "0 < k \<Longrightarrow> u32_at (x # s) k = u32_at s (k - 1)"
  by (cases k) (auto simp: u32_at_def add.commute)

lemma be32_at_Cons: "0 < k \<Longrightarrow> be32_at (x # s) k = be32_at s (k - 1)"
  by (cases k) (auto simp: be32_at_def add.commute)

lemma be16_of_at: "2 \<le> length s \<Longrightarrow> be16 (be16_at s 0) = take 2 s"
proof -
  assume "2 \<le> length s"
  then obtain a b r where s: "s = a # b # r" by (auto simp: numeral_eq_Suc Suc_le_length_iff)
  have "be16 (push_bit 8 (ucast a) OR ucast b) = [a, b]"
    by (auto intro!: bit_word_eqI simp: be16_def bit_simps byte_bit_high)
  with s show ?thesis by (simp add: be16_at_def)
qed

lemma be16_at_drop: "off + k + 2 \<le> length buf \<Longrightarrow> be16_at (drop off buf) k = be16_at buf (off + k)"
  by (simp add: be16_at_def add.assoc)

lemma be32_at_drop: "off + k + 4 \<le> length buf \<Longrightarrow> be32_at (drop off buf) k = be32_at buf (off + k)"
  by (simp add: be32_at_def add.assoc)

lemma be16_at_take: "k + 2 \<le> n \<Longrightarrow> be16_at (take n buf) k = be16_at buf k"
  by (simp add: be16_at_def)

lemma be32_at_take: "k + 4 \<le> n \<Longrightarrow> be32_at (take n buf) k = be32_at buf k"
  by (simp add: be32_at_def)

section \<open>C strings\<close>

text \<open>\<open>strlcpy\<close> into an array of \<open>n\<close> characters.\<close>

definition strlcpy :: "nat \<Rightarrow> string \<Rightarrow> string" where
  "strlcpy n s = take (n - 1) s"

lemma length_strlcpy: "0 < n \<Longrightarrow> length (strlcpy n s) < n"
  by (simp add: strlcpy_def)

lemma strlcpy_fits [simp]: "length s < n \<Longrightarrow> strlcpy n s = s"
  by (simp add: strlcpy_def)

lemma set_strlcpy: "set (strlcpy n s) \<subseteq> set s"
  by (simp add: strlcpy_def set_take_subset)

text \<open>\<open>snprintf\<close> into an array of \<open>n\<close> characters.\<close>

definition snprintf :: "nat \<Rightarrow> string \<Rightarrow> string" where
  "snprintf n s = take (n - 1) s"

text \<open>The text of a read buffer as the string functions see it: up to the first null character.\<close>

definition c_string :: "string \<Rightarrow> string" where
  "c_string s = takeWhile (\<lambda>c. c \<noteq> CHR 0x00) s"

text \<open>\<open>strstr (hay, needle) != NULL\<close>.\<close>

fun occurs_in :: "string \<Rightarrow> string \<Rightarrow> bool" where
  "occurs_in needle [] = (needle = [])"
| "occurs_in needle (c # cs) = (take (length needle) (c # cs) = needle \<or> occurs_in needle cs)"

section \<open>Ledgers\<close>

text \<open>The sum of the changes that a list of calls makes to a count.\<close>

definition net :: "('a \<Rightarrow> int) \<Rightarrow> 'a list \<Rightarrow> int" where
  "net f calls = sum_list (map f calls)"

lemma net_simps [simp]: "net f [] = 0" "net f (c # cs) = f c + net f cs" "net f (xs @ ys) = net f xs + net f ys"
  by (simp_all add: net_def)

lemma net_zero: "(\<And>c. c \<in> set cs \<Longrightarrow> f c = 0) \<Longrightarrow> net f cs = 0"
  by (induction cs) auto

definition one_if :: "bool \<Rightarrow> int" where
  "one_if b = (if b then 1 else 0)"

end
