(* ===== verification/Rndis.thy ===== *)
theory Rndis
  imports Tether_Prelude
begin

text \<open>
  \<^verbatim>\<open>include/rndis.h\<close> and \<^verbatim>\<open>src/rndis.c\<close>: the RNDIS messages, one record per packed struct
  with its encoder or decoder, and the functions that build and parse them.  The builders write
  into \<open>buf\<close> (the object behind the pointer) under the limit \<open>buf_size\<close> the caller gives; the
  parsers read from \<open>buf\<close> under the limit \<open>len\<close>.  The struct assignment \<open>memset; field = v; ...\<close>
  of the builders is one store of the encoded record, whose unassigned fields are 0.
\<close>

section \<open>Constants\<close>

definition RNDIS_MSG_INIT :: u32 where [simp]: "RNDIS_MSG_INIT = 0x00000002"
definition RNDIS_MSG_INIT_C :: u32 where [simp]: "RNDIS_MSG_INIT_C = 0x80000002"
definition RNDIS_MSG_QUERY :: u32 where [simp]: "RNDIS_MSG_QUERY = 0x00000004"
definition RNDIS_MSG_QUERY_C :: u32 where [simp]: "RNDIS_MSG_QUERY_C = 0x80000004"
definition RNDIS_MSG_SET :: u32 where [simp]: "RNDIS_MSG_SET = 0x00000005"
definition RNDIS_MSG_SET_C :: u32 where [simp]: "RNDIS_MSG_SET_C = 0x80000005"
definition RNDIS_MSG_KEEPALIVE :: u32 where [simp]: "RNDIS_MSG_KEEPALIVE = 0x00000008"
definition RNDIS_MSG_PACKET :: u32 where [simp]: "RNDIS_MSG_PACKET = 0x00000001"
definition RNDIS_STATUS_SUCCESS :: u32 where [simp]: "RNDIS_STATUS_SUCCESS = 0x00000000"
definition OID_GEN_CURRENT_PACKET_FILTER :: u32 where
  [simp]: "OID_GEN_CURRENT_PACKET_FILTER = 0x0001010E"
definition OID_802_3_PERMANENT_ADDRESS :: u32 where
  [simp]: "OID_802_3_PERMANENT_ADDRESS = 0x01010101"
definition RNDIS_PACKET_TYPE_DIRECTED :: u32 where
  [simp]: "RNDIS_PACKET_TYPE_DIRECTED = 0x00000001"
definition RNDIS_PACKET_TYPE_MULTICAST :: u32 where
  [simp]: "RNDIS_PACKET_TYPE_MULTICAST = 0x00000002"
definition RNDIS_PACKET_TYPE_ALL_MULTICAST :: u32 where
  [simp]: "RNDIS_PACKET_TYPE_ALL_MULTICAST = 0x00000004"
definition RNDIS_PACKET_TYPE_BROADCAST :: u32 where
  [simp]: "RNDIS_PACKET_TYPE_BROADCAST = 0x00000008"
definition RNDIS_MAJOR_VERSION :: u32 where [simp]: "RNDIS_MAJOR_VERSION = 1"
definition RNDIS_MINOR_VERSION :: u32 where [simp]: "RNDIS_MINOR_VERSION = 0"
definition RNDIS_MAX_TRANSFER_SIZE :: u32 where [simp]: "RNDIS_MAX_TRANSFER_SIZE = 0x8000"

section \<open>Message structs\<close>

text \<open>All fields are \<open>uint32_t\<close>, so a struct is its fields in order, four bytes each.\<close>

definition enc_u32s :: "u32 list \<Rightarrow> buffer" where
  "enc_u32s ws = concat (map le32 ws)"

record rndis_init_msg =
  im_msg_type :: u32
  im_msg_len :: u32
  im_request_id :: u32
  im_major_version :: u32
  im_minor_version :: u32
  im_max_transfer_size :: u32

definition enc_init_msg :: "rndis_init_msg \<Rightarrow> buffer" where
  "enc_init_msg m = enc_u32s [im_msg_type m, im_msg_len m, im_request_id m,
     im_major_version m, im_minor_version m, im_max_transfer_size m]"

record rndis_init_cmplt =
  ic_msg_type :: u32
  ic_msg_len :: u32
  ic_request_id :: u32
  ic_status :: u32
  ic_major_version :: u32
  ic_minor_version :: u32
  ic_device_flags :: u32
  ic_medium :: u32
  ic_max_packets_per_transfer :: u32
  ic_max_transfer_size :: u32
  ic_packet_alignment_factor :: u32
  ic_reserved1 :: u32
  ic_reserved2 :: u32

definition dec_init_cmplt :: "buffer \<Rightarrow> rndis_init_cmplt" where
  "dec_init_cmplt s = \<lparr>ic_msg_type = u32_at s 0, ic_msg_len = u32_at s 4,
     ic_request_id = u32_at s 8, ic_status = u32_at s 12, ic_major_version = u32_at s 16,
     ic_minor_version = u32_at s 20, ic_device_flags = u32_at s 24, ic_medium = u32_at s 28,
     ic_max_packets_per_transfer = u32_at s 32, ic_max_transfer_size = u32_at s 36,
     ic_packet_alignment_factor = u32_at s 40, ic_reserved1 = u32_at s 44,
     ic_reserved2 = u32_at s 48\<rparr>"

text \<open>\<open>rndis_query_msg_t\<close> and \<open>rndis_set_msg_t\<close> have the same fields.\<close>

record rndis_query_msg =
  qm_msg_type :: u32
  qm_msg_len :: u32
  qm_request_id :: u32
  qm_oid :: u32
  qm_len :: u32
  qm_offset :: u32
  qm_reserved :: u32

definition enc_query_msg :: "rndis_query_msg \<Rightarrow> buffer" where
  "enc_query_msg m = enc_u32s [qm_msg_type m, qm_msg_len m, qm_request_id m, qm_oid m,
     qm_len m, qm_offset m, qm_reserved m]"

record rndis_set_msg =
  sm_msg_type :: u32
  sm_msg_len :: u32
  sm_request_id :: u32
  sm_oid :: u32
  sm_len :: u32
  sm_offset :: u32
  sm_reserved :: u32

definition enc_set_msg :: "rndis_set_msg \<Rightarrow> buffer" where
  "enc_set_msg m = enc_u32s [sm_msg_type m, sm_msg_len m, sm_request_id m, sm_oid m,
     sm_len m, sm_offset m, sm_reserved m]"

record rndis_query_cmplt =
  qc_msg_type :: u32
  qc_msg_len :: u32
  qc_request_id :: u32
  qc_status :: u32
  qc_len :: u32
  qc_offset :: u32

definition dec_query_cmplt :: "buffer \<Rightarrow> rndis_query_cmplt" where
  "dec_query_cmplt s = \<lparr>qc_msg_type = u32_at s 0, qc_msg_len = u32_at s 4,
     qc_request_id = u32_at s 8, qc_status = u32_at s 12, qc_len = u32_at s 16,
     qc_offset = u32_at s 20\<rparr>"

record rndis_set_cmplt =
  sc_msg_type :: u32
  sc_msg_len :: u32
  sc_request_id :: u32
  sc_status :: u32

definition dec_set_cmplt :: "buffer \<Rightarrow> rndis_set_cmplt" where
  "dec_set_cmplt s = \<lparr>sc_msg_type = u32_at s 0, sc_msg_len = u32_at s 4,
     sc_request_id = u32_at s 8, sc_status = u32_at s 12\<rparr>"

record rndis_keepalive_msg =
  km_msg_type :: u32
  km_msg_len :: u32
  km_request_id :: u32

definition enc_keepalive_msg :: "rndis_keepalive_msg \<Rightarrow> buffer" where
  "enc_keepalive_msg m = enc_u32s [km_msg_type m, km_msg_len m, km_request_id m]"

record rndis_data_packet =
  dp_msg_type :: u32
  dp_msg_len :: u32
  dp_data_offset :: u32
  dp_data_len :: u32
  dp_oob_data_offset :: u32
  dp_oob_data_len :: u32
  dp_num_oob_elements :: u32
  dp_per_packet_info_offset :: u32
  dp_per_packet_info_len :: u32
  dp_reserved1 :: u32
  dp_reserved2 :: u32

definition enc_data_packet :: "rndis_data_packet \<Rightarrow> buffer" where
  "enc_data_packet m = enc_u32s [dp_msg_type m, dp_msg_len m, dp_data_offset m, dp_data_len m,
     dp_oob_data_offset m, dp_oob_data_len m, dp_num_oob_elements m,
     dp_per_packet_info_offset m, dp_per_packet_info_len m, dp_reserved1 m, dp_reserved2 m]"

definition dec_data_packet :: "buffer \<Rightarrow> rndis_data_packet" where
  "dec_data_packet s = \<lparr>dp_msg_type = u32_at s 0, dp_msg_len = u32_at s 4,
     dp_data_offset = u32_at s 8, dp_data_len = u32_at s 12, dp_oob_data_offset = u32_at s 16,
     dp_oob_data_len = u32_at s 20, dp_num_oob_elements = u32_at s 24,
     dp_per_packet_info_offset = u32_at s 28, dp_per_packet_info_len = u32_at s 32,
     dp_reserved1 = u32_at s 36, dp_reserved2 = u32_at s 40\<rparr>"

record rndis_indicate_status =
  is_msg_type :: u32
  is_msg_len :: u32
  is_status :: u32
  is_status_buf_len :: u32
  is_status_buf_offset :: u32

definition dec_indicate_status :: "buffer \<Rightarrow> rndis_indicate_status" where
  "dec_indicate_status s = \<lparr>is_msg_type = u32_at s 0, is_msg_len = u32_at s 4,
     is_status = u32_at s 8, is_status_buf_len = u32_at s 12, is_status_buf_offset = u32_at s 16\<rparr>"

record rndis_state =
  request_id :: u32
  max_transfer_size :: u32
  medium :: u32
  mac_addr :: buffer
  link_up :: int

definition wf_rndis_state :: "rndis_state \<Rightarrow> bool" where
  "wf_rndis_state st \<longleftrightarrow> length (mac_addr st) = 6"

definition sizeof_init_msg :: nat where [simp]: "sizeof_init_msg = 24"
definition sizeof_init_cmplt :: nat where [simp]: "sizeof_init_cmplt = 52"
definition sizeof_query_msg :: nat where [simp]: "sizeof_query_msg = 28"
definition sizeof_query_cmplt :: nat where [simp]: "sizeof_query_cmplt = 24"
definition sizeof_set_msg :: nat where [simp]: "sizeof_set_msg = 28"
definition sizeof_set_cmplt :: nat where [simp]: "sizeof_set_cmplt = 16"
definition sizeof_keepalive_msg :: nat where [simp]: "sizeof_keepalive_msg = 12"
definition sizeof_data_packet :: nat where [simp]: "sizeof_data_packet = 44"
definition sizeof_indicate_status :: nat where [simp]: "sizeof_indicate_status = 20"

section \<open>Building and parsing\<close>

text \<open>\<open>return (int)msg->msg_len\<close> after the struct has been filled in.\<close>

definition rndis_build_init :: "buffer \<Rightarrow> nat \<Rightarrow> rndis_state \<Rightarrow> (int \<times> buffer \<times> rndis_state) run" where
  "rndis_build_init buf buf_size st =
     (if buf_size < sizeof_init_msg then Inr (-1, buf, st)
      else let st' = st\<lparr>request_id := request_id st + 1\<rparr>;
               msg = \<lparr>im_msg_type = RNDIS_MSG_INIT, im_msg_len = word_of_nat sizeof_init_msg,
                 im_request_id = request_id st', im_major_version = RNDIS_MAJOR_VERSION,
                 im_minor_version = RNDIS_MINOR_VERSION,
                 im_max_transfer_size = RNDIS_MAX_TRANSFER_SIZE\<rparr>
           in bindR (wr_bytes buf 0 (enc_init_msg msg))
                (\<lambda>buf'. Inr (sint (im_msg_len msg), buf', st')))"

definition rndis_parse_init_cmplt :: "buffer \<Rightarrow> nat \<Rightarrow> rndis_state \<Rightarrow> (int \<times> rndis_state) run" where
  "rndis_parse_init_cmplt buf len st =
     (if len < sizeof_init_cmplt then Inr (-1, st)
      else bindR (rd_bytes buf 0 sizeof_init_cmplt) (\<lambda>s.
        let cmplt = dec_init_cmplt s
        in if ic_msg_type cmplt \<noteq> RNDIS_MSG_INIT_C then Inr (-1, st)
           else if ic_status cmplt \<noteq> RNDIS_STATUS_SUCCESS then Inr (-1, st)
           else Inr (0, st\<lparr>max_transfer_size := ic_max_transfer_size cmplt,
                          medium := ic_medium cmplt\<rparr>)))"

definition rndis_build_query ::
    "buffer \<Rightarrow> nat \<Rightarrow> u32 \<Rightarrow> rndis_state \<Rightarrow> (int \<times> buffer \<times> rndis_state) run" where
  "rndis_build_query buf buf_size oid st =
     (if buf_size < sizeof_query_msg then Inr (-1, buf, st)
      else let st' = st\<lparr>request_id := request_id st + 1\<rparr>;
               msg = \<lparr>qm_msg_type = RNDIS_MSG_QUERY, qm_msg_len = word_of_nat sizeof_query_msg,
                 qm_request_id = request_id st', qm_oid = oid, qm_len = 0, qm_offset = 20,
                 qm_reserved = 0\<rparr>
           in bindR (wr_bytes buf 0 (enc_query_msg msg))
                (\<lambda>buf'. Inr (sint (qm_msg_len msg), buf', st')))"

text \<open>
  \<open>out\<close> is the pair of \<open>data_out\<close> and \<open>*data_len\<close>, \<open>None\<close> where one of the pointers is null.
  \<open>8 + cmplt->offset\<close> is computed in \<open>uint32_t\<close> and wraps; the sum with \<open>cmplt->len\<close> is a
  \<open>size_t\<close>.
\<close>

definition rndis_parse_query_cmplt ::
    "buffer \<Rightarrow> nat \<Rightarrow> (buffer \<times> nat) option \<Rightarrow> (int \<times> (buffer \<times> nat) option) run" where
  "rndis_parse_query_cmplt buf len out =
     (if len < sizeof_query_cmplt then Inr (-1, out)
      else bindR (rd_bytes buf 0 sizeof_query_cmplt) (\<lambda>s.
        let cmplt = dec_query_cmplt s
        in if qc_msg_type cmplt \<noteq> RNDIS_MSG_QUERY_C then Inr (-1, out)
           else if qc_status cmplt \<noteq> RNDIS_STATUS_SUCCESS then Inr (-1, out)
           else case out of
             None \<Rightarrow> Inr (0, out)
           | Some (data_out, data_len) \<Rightarrow>
               if qc_len cmplt > 0 then
                 let data_start = unat (8 + qc_offset cmplt)
                 in if data_start + unat (qc_len cmplt) > len then Inr (-1, out)
                    else let copy_len = (if unat (qc_len cmplt) > data_len then data_len
                                         else unat (qc_len cmplt))
                         in bindR (rd_bytes buf data_start copy_len) (\<lambda>bs.
                            bindR (wr_bytes data_out 0 bs) (\<lambda>data_out'.
                            Inr (0, Some (data_out', copy_len))))
               else Inr (0, out)))"

definition rndis_build_set ::
    "buffer \<Rightarrow> nat \<Rightarrow> u32 \<Rightarrow> buffer \<Rightarrow> nat \<Rightarrow> rndis_state \<Rightarrow> (int \<times> buffer \<times> rndis_state) run" where
  "rndis_build_set buf buf_size oid data data_len st =
     (let total_len = size_add sizeof_set_msg data_len
      in if buf_size < total_len then Inr (-1, buf, st)
         else let st' = st\<lparr>request_id := request_id st + 1\<rparr>;
                  msg = \<lparr>sm_msg_type = RNDIS_MSG_SET, sm_msg_len = word_of_nat total_len,
                    sm_request_id = request_id st', sm_oid = oid,
                    sm_len = word_of_nat data_len, sm_offset = 20, sm_reserved = 0\<rparr>
              in bindR (wr_bytes buf 0 (enc_set_msg msg)) (\<lambda>buf1.
                 if data_len > 0 then
                   bindR (rd_bytes data 0 data_len) (\<lambda>bs.
                   bindR (wr_bytes buf1 sizeof_set_msg bs) (\<lambda>buf2.
                   Inr (c_int total_len, buf2, st')))
                 else Inr (c_int total_len, buf1, st')))"

definition rndis_parse_set_cmplt :: "buffer \<Rightarrow> nat \<Rightarrow> int run" where
  "rndis_parse_set_cmplt buf len =
     (if len < sizeof_set_cmplt then Inr (-1)
      else bindR (rd_bytes buf 0 sizeof_set_cmplt) (\<lambda>s.
        let cmplt = dec_set_cmplt s
        in if sc_msg_type cmplt \<noteq> RNDIS_MSG_SET_C then Inr (-1)
           else if sc_status cmplt \<noteq> RNDIS_STATUS_SUCCESS then Inr (-1)
           else Inr 0))"

definition rndis_build_keepalive ::
    "buffer \<Rightarrow> nat \<Rightarrow> rndis_state \<Rightarrow> (int \<times> buffer \<times> rndis_state) run" where
  "rndis_build_keepalive buf buf_size st =
     (if buf_size < sizeof_keepalive_msg then Inr (-1, buf, st)
      else let st' = st\<lparr>request_id := request_id st + 1\<rparr>;
               msg = \<lparr>km_msg_type = RNDIS_MSG_KEEPALIVE,
                 km_msg_len = word_of_nat sizeof_keepalive_msg, km_request_id = request_id st'\<rparr>
           in bindR (wr_bytes buf 0 (enc_keepalive_msg msg))
                (\<lambda>buf'. Inr (sint (km_msg_len msg), buf', st')))"

definition data_packet_header :: "nat \<Rightarrow> nat \<Rightarrow> rndis_data_packet" where
  "data_packet_header total_len eth_len =
     \<lparr>dp_msg_type = RNDIS_MSG_PACKET, dp_msg_len = word_of_nat total_len, dp_data_offset = 36,
      dp_data_len = word_of_nat eth_len, dp_oob_data_offset = 0, dp_oob_data_len = 0,
      dp_num_oob_elements = 0, dp_per_packet_info_offset = 0, dp_per_packet_info_len = 0,
      dp_reserved1 = 0, dp_reserved2 = 0\<rparr>"

definition rndis_build_data_packet ::
    "buffer \<Rightarrow> nat \<Rightarrow> buffer \<Rightarrow> nat \<Rightarrow> (int \<times> buffer) run" where
  "rndis_build_data_packet buf buf_size eth_frame eth_len =
     (let total_len = size_add sizeof_data_packet eth_len
      in if buf_size < total_len then Inr (-1, buf)
         else bindR (wr_bytes buf 0 (enc_data_packet (data_packet_header total_len eth_len))) (\<lambda>buf1.
              bindR (rd_bytes eth_frame 0 eth_len) (\<lambda>bs.
              bindR (wr_bytes buf1 sizeof_data_packet bs) (\<lambda>buf2.
              Inr (c_int total_len, buf2)))))"

text \<open>
  The frame comes back as a pointer into \<open>buf\<close>, here its offset, and a length, which are set
  only where the function returns 0.
\<close>

definition rndis_parse_data_packet :: "buffer \<Rightarrow> nat \<Rightarrow> (int \<times> (nat \<times> nat) option) run" where
  "rndis_parse_data_packet buf len =
     (if len < sizeof_data_packet then Inr (-1, None)
      else bindR (rd_bytes buf 0 sizeof_data_packet) (\<lambda>s.
        let pkt = dec_data_packet s
        in if dp_msg_type pkt \<noteq> RNDIS_MSG_PACKET then Inr (-1, None)
           else if dp_data_len pkt = 0 then Inr (-1, None)
           else let data_start = unat (8 + dp_data_offset pkt)
                in if data_start + unat (dp_data_len pkt) > len then Inr (-1, None)
                   else Inr (0, Some (data_start, unat (dp_data_len pkt)))))"

definition rndis_parse_indicate_status :: "buffer \<Rightarrow> nat \<Rightarrow> u32 \<Rightarrow> (int \<times> u32) run" where
  "rndis_parse_indicate_status buf len status =
     (if len < sizeof_indicate_status then Inr (-1, status)
      else bindR (rd_bytes buf 0 sizeof_indicate_status) (\<lambda>s.
        Inr (0, is_status (dec_indicate_status s))))"

section \<open>Encoding lemmas\<close>

lemma length_enc_u32s [simp]: "length (enc_u32s ws) = 4 * length ws"
  by (induction ws) (auto simp: enc_u32s_def)

lemma enc_u32s_Cons: "enc_u32s (w # ws) = le32 w @ enc_u32s ws"
  by (simp add: enc_u32s_def)

lemma enc_u32s_Nil [simp]: "enc_u32s [] = []"
  by (simp add: enc_u32s_def)

lemma u32_at_enc: "k < length ws \<Longrightarrow> u32_at (enc_u32s ws @ s) (4 * k) = ws ! k"
proof (induction ws arbitrary: k)
  case (Cons w ws)
  then show ?case
    by (cases k) (auto simp: enc_u32s_Cons)
qed simp

lemma enc_lengths [simp]:
  "length (enc_init_msg im) = sizeof_init_msg"
  "length (enc_query_msg qm) = sizeof_query_msg"
  "length (enc_set_msg sm) = sizeof_set_msg"
  "length (enc_keepalive_msg km) = sizeof_keepalive_msg"
  "length (enc_data_packet dp) = sizeof_data_packet"
  by (simp_all add: enc_init_msg_def enc_query_msg_def enc_set_msg_def enc_keepalive_msg_def
      enc_data_packet_def)

lemma dec_enc_data_packet: "dec_data_packet (enc_data_packet m @ s) = m"
  by (simp add: dec_data_packet_def enc_data_packet_def enc_u32s_Cons)


section \<open>The builders\<close>

text \<open>What the builders leave in the buffer: the encoded message, then the old contents.\<close>

lemma wr_bytes_prefix [simp]:
  "length bs \<le> length buf \<Longrightarrow> wr_bytes buf 0 bs = Inr (bs @ drop (length bs) buf)"
  by simp

lemma build_init_runs:
  assumes "sizeof_init_msg \<le> buf_size" "buf_size \<le> length buf"
  shows "runs_to (rndis_build_init buf buf_size st) (\<lambda>(r, buf', st').
    r = 24 \<and> length buf' = length buf \<and> st' = st\<lparr>request_id := request_id st + 1\<rparr> \<and>
    u32_at buf' 0 = RNDIS_MSG_INIT \<and> u32_at buf' 8 = request_id st + 1)"
  using assms
  by (simp add: rndis_build_init_def run_simps enc_init_msg_def enc_u32s_Cons)

lemma build_query_runs:
  assumes "sizeof_query_msg \<le> buf_size" "buf_size \<le> length buf"
  shows "runs_to (rndis_build_query buf buf_size oid st) (\<lambda>(r, buf', st').
    r = 28 \<and> length buf' = length buf \<and> st' = st\<lparr>request_id := request_id st + 1\<rparr> \<and>
    u32_at buf' 0 = RNDIS_MSG_QUERY \<and> u32_at buf' 8 = request_id st + 1 \<and> u32_at buf' 12 = oid)"
  using assms
  by (simp add: rndis_build_query_def run_simps enc_query_msg_def enc_u32s_Cons)

lemma build_set_runs:
  assumes "sizeof_set_msg + data_len \<le> buf_size" "buf_size \<le> length buf" "buf_size < 2 ^ 31"
    and "data_len \<le> length data"
  shows "runs_to (rndis_build_set buf buf_size oid data data_len st) (\<lambda>(r, buf', st').
    r = int (28 + data_len) \<and> length buf' = length buf \<and>
    st' = st\<lparr>request_id := request_id st + 1\<rparr> \<and> u32_at buf' 0 = RNDIS_MSG_SET \<and>
    u32_at buf' 8 = request_id st + 1 \<and> u32_at buf' 12 = oid \<and>
    take data_len (drop 28 buf') = take data_len data)"
  using assms
  by (auto simp: rndis_build_set_def run_simps enc_set_msg_def enc_u32s_Cons Let_def)

lemma build_keepalive_runs:
  assumes "sizeof_keepalive_msg \<le> buf_size" "buf_size \<le> length buf"
  shows "runs_to (rndis_build_keepalive buf buf_size st) (\<lambda>(r, buf', st').
    r = 12 \<and> length buf' = length buf \<and> st' = st\<lparr>request_id := request_id st + 1\<rparr> \<and>
    u32_at buf' 0 = RNDIS_MSG_KEEPALIVE \<and> u32_at buf' 8 = request_id st + 1)"
  using assms
  by (simp add: rndis_build_keepalive_def run_simps enc_keepalive_msg_def enc_u32s_Cons)

section \<open>Data packets\<close>

lemma build_data_packet_eq:
  assumes "sizeof_data_packet + n \<le> buf_size" "buf_size \<le> length buf" "buf_size < 2 ^ 31"
    and "n \<le> length frame"
  shows "rndis_build_data_packet buf buf_size frame n =
    Inr (int (44 + n), enc_data_packet (data_packet_header (44 + n) n) @ take n frame @
      drop (44 + n) buf)"
  using assms by (simp add: rndis_build_data_packet_def Let_def add.commute)

lemma build_data_packet_too_small:
  assumes "buf_size < sizeof_data_packet + n" "n < 2 ^ 63"
  shows "rndis_build_data_packet buf buf_size frame n = Inr (-1, buf)"
  using assms by (simp add: rndis_build_data_packet_def Let_def)

text \<open>What a returned frame satisfies, for any bytes a device sends.\<close>

lemma parse_data_packet_runs:
  assumes "len \<le> length buf"
  shows "runs_to (rndis_parse_data_packet buf len) (\<lambda>(r, fr).
    (case fr of None \<Rightarrow> r = -1 | Some (start, n) \<Rightarrow> r = 0 \<and> 0 < n \<and> n < 2 ^ 32 \<and> start + n \<le> len \<and>
      44 \<le> len \<and> u32_at buf 0 = RNDIS_MSG_PACKET \<and>
      start = unat (8 + u32_at buf 8) \<and> n = unat (u32_at buf 12)))"
  using assms unat_u32_less [of "u32_at buf 12"]
  by (auto simp: rndis_parse_data_packet_def run_simps Let_def dec_data_packet_def u32_at_take
      unat_gt_0)

lemma parse_data_packet_cases:
  assumes "rndis_parse_data_packet buf len = Inr (r, fr)"
  shows "(fr = None \<and> r = -1) \<or> (\<exists>start n. fr = Some (start, n) \<and> r = 0 \<and> start + n \<le> len)"
  using assms
  by (auto simp: rndis_parse_data_packet_def Let_def bindR_eq_Inr split: if_splits)

lemma parse_data_packet_eq:
  assumes "44 \<le> len" "44 \<le> length buf"
  shows "rndis_parse_data_packet buf len = Inr
    (if u32_at buf 0 \<noteq> RNDIS_MSG_PACKET \<or> u32_at buf 12 = 0 \<or>
        unat (8 + u32_at buf 8) + unat (u32_at buf 12) > len then (-1, None)
     else (0, Some (unat (8 + u32_at buf 8), unat (u32_at buf 12))))"
  using assms
  by (auto simp: rndis_parse_data_packet_def Let_def dec_data_packet_def u32_at_take)

lemma parse_wire_message:
  assumes "0 < length f" "44 + length f + length p < 2 ^ 32"
  shows "rndis_parse_data_packet
      (enc_data_packet (data_packet_header t (length f)) @ f @ p @ rest) (44 + length f + length p) =
    Inr (0, Some (44, length f))"
  using assms
  by (simp add: rndis_parse_data_packet_def Let_def dec_enc_data_packet [where s = "[]", simplified]
      data_packet_header_def unat_of_nat word_of_nat_eq_0_iff nat_dvd_not_less)

lemma parse_built_data_packet:
  assumes "0 < n" "n \<le> length frame" "44 + n < 2 ^ 31"
  shows "rndis_parse_data_packet
      (enc_data_packet (data_packet_header (44 + n) n) @ take n frame @ rest) (44 + n) =
    Inr (0, Some (44, n))"
  using parse_wire_message [of "take n frame" "[]" "44 + n" rest] assms by simp

section \<open>Properties\<close>

text \<open>
  C24: A data message survives the wire: for a non-empty Ethernet frame that fits the caller's
  buffer, \<open>rndis_build_data_packet\<close> returns the length of the message, touches no byte behind it,
  and \<open>rndis_parse_data_packet\<close> on that message returns exactly the frame.
\<close>

theorem data_packet_roundtrip:
  assumes "0 < n" "n \<le> length frame" "sizeof_data_packet + n \<le> buf_size"
    and "buf_size \<le> length buf" "buf_size < 2 ^ 31"
  shows "runs_to (rndis_build_data_packet buf buf_size frame n) (\<lambda>(r, buf').
    r = int (44 + n) \<and> length buf' = length buf \<and> drop (44 + n) buf' = drop (44 + n) buf \<and>
    rndis_parse_data_packet buf' (nat r) = Inr (0, Some (44, n)) \<and>
    take n (drop 44 buf') = take n frame)"
  using assms by (simp add: build_data_packet_eq parse_built_data_packet nat_add_distrib)

lemma data_packet_roundtrip_witness:
  "runs_to (rndis_build_data_packet (replicate 64 0) 64 [1, 2, 3] 3) (\<lambda>(r, buf').
    r = 47 \<and> length buf' = 64 \<and> rndis_parse_data_packet buf' (nat r) = Inr (0, Some (44, 3)) \<and>
    take 3 (drop 44 buf') = [1, 2, 3])"
  using data_packet_roundtrip [of 3 "[1, 2, 3]" 64 "replicate 64 0"]
  by (auto elim!: runs_to_mono)

text \<open>
  C25: Whatever bytes a device puts into a message, \<open>rndis_parse_data_packet\<close> reads only inside the
  message, and a frame it returns is non-empty and lies inside the message, even where
  \<open>8 + data_offset\<close> wraps around in \<open>uint32_t\<close>.
\<close>

theorem parse_data_packet_in_bounds:
  assumes "len \<le> length buf"
  shows "runs_to (rndis_parse_data_packet buf len) (\<lambda>(r, fr). case fr of
      None \<Rightarrow> r = -1
    | Some (start, n) \<Rightarrow> r = 0 \<and> 0 < n \<and> start + n \<le> len)"
  using parse_data_packet_runs [OF assms]
  by (rule runs_to_mono) (auto split: option.splits)

lemma parse_data_packet_in_bounds_witness:
  "(44::nat) \<le> length (enc_u32s [1, 44, 0xFFFFFFFC, 8, 0, 0, 0, 0, 0, 0, 0]) \<and>
   runs_to (rndis_parse_data_packet (enc_u32s [1, 44, 0xFFFFFFFC, 8, 0, 0, 0, 0, 0, 0, 0]) 44)
     (\<lambda>(r, fr). case fr of None \<Rightarrow> r = -1 | Some (start, n) \<Rightarrow> r = 0 \<and> 0 < n \<and> start + n \<le> 44)"
  by (intro conjI parse_data_packet_in_bounds) simp_all

text \<open>
  A query completion never makes the host read outside the response or write outside the
  \<open>*data_len\<close> bytes of the caller's buffer: on success the copied bytes are a piece of the
  response, at most \<open>*data_len\<close> of them, and the rest of the buffer is unchanged.
\<close>

theorem parse_query_cmplt_in_bounds:
  assumes "len \<le> length buf" "data_len \<le> length data_out"
  shows "runs_to (rndis_parse_query_cmplt buf len (Some (data_out, data_len))) (\<lambda>(r, out).
    (r = -1 \<and> out = Some (data_out, data_len)) \<or>
    (r = 0 \<and> (case out of None \<Rightarrow> False | Some (data_out', n) \<Rightarrow>
       n \<le> data_len \<and> length data_out' = length data_out \<and> drop n data_out' = drop n data_out \<and>
       (u32_at buf 16 = 0 \<and> data_out' = data_out \<and> n = data_len \<or>
        (\<exists>start. start + n \<le> len \<and> take n data_out' = take n (drop start buf) \<and>
          n = min data_len (unat (u32_at buf 16)))))))"
proof -
  have fits: "start + n \<le> length buf \<and> n \<le> length data_out"
    if "start + m \<le> len" "n = min data_len m" for start n m
    using that assms by auto
  show ?thesis
    using assms fits
    by (auto simp: rndis_parse_query_cmplt_def run_simps Let_def dec_query_cmplt_def u32_at_take
        min_def word_gt_0 intro!: exI [of _ "unat (8 + u32_at buf 20)"])
qed

lemma parse_query_cmplt_in_bounds_witness:
  "runs_to (rndis_parse_query_cmplt (enc_u32s [0x80000004, 30, 1, 0, 6, 16] @ [2, 3, 4, 5, 6, 7]) 30
     (Some (replicate 6 0, 6))) (\<lambda>(r, out). r = -1 \<or> r = 0)"
  by (rule runs_to_mono, rule parse_query_cmplt_in_bounds) auto

end
