(* ===== verification/Usb_Device.thy ===== *)
theory Usb_Device
  imports Tether_Prelude
begin

text \<open>
  \<^verbatim>\<open>include/usb_device.h\<close> and \<^verbatim>\<open>src/usb_device.c\<close>: finding and opening the tethering
  device, the synchronous transfers, and closing it.  libusb and the devices behind it are not
  under \<^verbatim>\<open>src/\<close>: transfers are functions of an environment state of an arbitrary type
  (\<open>libusb\<close>), discovery is a function of what libusb answers for each device of its list
  (\<open>usb_env_device\<close>).  The only fact used of libusb is the documented one that it stores at most
  the requested number of bytes.  Every libusb call that acquires or gives back a resource is
  recorded in a log, so that leaks are statements about the log.
\<close>

section \<open>Descriptors and the device state\<close>

definition USB_CLASS_WIRELESS :: byte where [simp]: "USB_CLASS_WIRELESS = 0xE0"
definition USB_SUBCLASS_RNDIS :: byte where [simp]: "USB_SUBCLASS_RNDIS = 0x01"
definition USB_PROTOCOL_RNDIS :: byte where [simp]: "USB_PROTOCOL_RNDIS = 0x03"
definition USB_CLASS_CDC :: byte where [simp]: "USB_CLASS_CDC = 0x02"
definition USB_SUBCLASS_ACM :: byte where [simp]: "USB_SUBCLASS_ACM = 0x02"
definition USB_SUBCLASS_VENDOR :: byte where [simp]: "USB_SUBCLASS_VENDOR = 0xFF"
definition USB_CLASS_CDC_DATA :: byte where [simp]: "USB_CLASS_CDC_DATA = 0x0A"
definition USB_CTRL_TIMEOUT :: int where [simp]: "USB_CTRL_TIMEOUT = 5000"
definition USB_BULK_TIMEOUT :: int where [simp]: "USB_BULK_TIMEOUT = 5000"
definition CDC_SEND_ENCAPSULATED :: byte where [simp]: "CDC_SEND_ENCAPSULATED = 0x00"
definition CDC_GET_ENCAPSULATED :: byte where [simp]: "CDC_GET_ENCAPSULATED = 0x01"

text \<open>libusb's descriptor structs, as far as the source reads them.\<close>

record endpoint_desc =
  bEndpointAddress :: byte
  bmAttributes :: byte
  wMaxPacketSize :: u16

record iface_desc =
  bInterfaceNumber :: byte
  bAlternateSetting :: byte
  bInterfaceClass :: byte
  bInterfaceSubClass :: byte
  bInterfaceProtocol :: byte
  endpoints :: "endpoint_desc list"

text \<open>A configuration: its interfaces, each with its alternate settings.\<close>

type_synonym config_desc = "iface_desc list list"

record usb_device =
  usb_ctx :: bool
  handle :: "nat option"
  iface_comm :: byte
  iface_data :: byte
  ep_in :: byte
  ep_out :: byte
  ep_int :: byte
  ep_in_max :: u16
  ep_out_max :: u16
  vid :: u16
  pid :: u16
  kernel_detached :: bool

definition zero_usb_device :: usb_device where
  "zero_usb_device = \<lparr>usb_ctx = False, handle = None, iface_comm = 0, iface_data = 0, ep_in = 0,
     ep_out = 0, ep_int = 0, ep_in_max = 0, ep_out_max = 0, vid = 0, pid = 0,
     kernel_detached = False\<rparr>"

definition is_rndis_interface :: "iface_desc \<Rightarrow> bool" where
  "is_rndis_interface iface =
     (if bInterfaceClass iface = USB_CLASS_WIRELESS \<and>
         bInterfaceSubClass iface = USB_SUBCLASS_RNDIS \<and>
         bInterfaceProtocol iface = USB_PROTOCOL_RNDIS then True
      else if bInterfaceClass iface = USB_CLASS_CDC \<and>
         bInterfaceSubClass iface = USB_SUBCLASS_ACM \<and>
         bInterfaceProtocol iface = USB_PROTOCOL_RNDIS then True
      else if bInterfaceClass iface = USB_CLASS_CDC \<and>
         bInterfaceSubClass iface = USB_SUBCLASS_VENDOR \<and>
         bInterfaceProtocol iface = USB_PROTOCOL_RNDIS then True
      else if bInterfaceClass iface = 0xFF \<and> bInterfaceSubClass iface = 0x01 \<and>
         bInterfaceProtocol iface = 0x03 then True
      else False)"

definition is_data_interface :: "iface_desc \<Rightarrow> bool" where
  "is_data_interface iface = (bInterfaceClass iface = USB_CLASS_CDC_DATA)"

text \<open>\<open>LIBUSB_TRANSFER_TYPE_MASK\<close> is 3, interrupt 3, bulk 2; the direction bit is 0x80, set for IN.\<close>

definition find_endpoint :: "bool \<Rightarrow> endpoint_desc \<Rightarrow> usb_device \<Rightarrow> usb_device" where
  "find_endpoint is_comm ep dev =
     (let type = bmAttributes ep AND 0x03; dir = bEndpointAddress ep AND 0x80
      in if type = 3 \<and> is_comm then dev\<lparr>ep_int := bEndpointAddress ep\<rparr>
         else if type = 2 then
           (if dir = 0x80
            then dev\<lparr>ep_in := bEndpointAddress ep, ep_in_max := wMaxPacketSize ep\<rparr>
            else dev\<lparr>ep_out := bEndpointAddress ep, ep_out_max := wMaxPacketSize ep\<rparr>)
         else dev)"

definition find_endpoints :: "usb_device \<Rightarrow> iface_desc \<Rightarrow> bool \<Rightarrow> usb_device" where
  "find_endpoints dev iface is_comm = fold (find_endpoint is_comm) (endpoints iface) dev"

section \<open>Discovery\<close>

text \<open>What libusb answers about one device of the list.\<close>

record usb_env_device =
  env_descriptor :: "(u16 \<times> u16) option"
  env_config :: "config_desc option"
  env_open_ok :: bool
  env_kernel_active :: "int \<Rightarrow> bool"
  env_claim_ok :: "int \<Rightarrow> bool"
  env_set_alt_ok :: bool

datatype usb_call =
    Lib_Init | Lib_Exit | List_Get | List_Free
  | Config_Get nat | Config_Free nat | Open_Dev nat | Close_Dev nat
  | Detach nat int | Attach nat int | Claim nat int | Release nat int

text \<open>The nested loops over interfaces and alternate settings run over all settings in order.\<close>

fun scan_interfaces :: "iface_desc list \<Rightarrow> int \<times> int \<Rightarrow> int \<times> int" where
  "scan_interfaces [] (comm, data) = (comm, data)"
| "scan_interfaces (alt # alts) (comm, data) =
     (let comm' = (if is_rndis_interface alt then uint (bInterfaceNumber alt) else comm);
          data' = (if is_data_interface alt \<and> comm' \<ge> 0 then uint (bInterfaceNumber alt) else data)
      in scan_interfaces alts (comm', data'))"

fun scan_next :: "iface_desc list \<Rightarrow> int \<Rightarrow> int \<Rightarrow> int" where
  "scan_next [] comm data = data"
| "scan_next (alt # alts) comm data =
     scan_next alts comm
       (if uint (bInterfaceNumber alt) = comm + 1 then uint (bInterfaceNumber alt) else data)"

definition select_interfaces :: "config_desc \<Rightarrow> int \<times> int" where
  "select_interfaces config =
     (let alts = concat config; (comm, data) = scan_interfaces alts (-1, -1)
      in if comm \<ge> 0 \<and> data < 0 then (comm, scan_next alts comm data) else (comm, data))"

fun endpoints_of :: "iface_desc list \<Rightarrow> int \<Rightarrow> int \<Rightarrow> usb_device \<Rightarrow> usb_device" where
  "endpoints_of [] comm data dev = dev"
| "endpoints_of (alt # alts) comm data dev =
     (let dev1 = (if uint (bInterfaceNumber alt) = comm then find_endpoints dev alt True else dev);
          dev2 = (if uint (bInterfaceNumber alt) = data then find_endpoints dev1 alt False else dev1)
      in endpoints_of alts comm data dev2)"

fun alt1_endpoints :: "iface_desc list \<Rightarrow> int \<Rightarrow> usb_device \<Rightarrow> usb_device" where
  "alt1_endpoints [] data dev = dev"
| "alt1_endpoints (alt # alts) data dev =
     alt1_endpoints alts data
       (if uint (bInterfaceNumber alt) = data \<and> bAlternateSetting alt = 1
        then find_endpoints dev alt False else dev)"

text \<open>The body of the loop over the device list, for device number \<open>i\<close>.\<close>

definition open_candidate ::
    "nat \<Rightarrow> usb_env_device \<Rightarrow> u16 \<times> u16 \<Rightarrow> config_desc \<Rightarrow> int \<Rightarrow> int \<Rightarrow> usb_device \<Rightarrow>
     bool \<times> usb_device \<times> usb_call list" where
  "open_candidate i env desc config comm data dev =
     (if \<not> env_open_ok env then (False, dev, [Config_Free i])
      else
        let dev1 = dev\<lparr>handle := Some i, vid := fst desc, pid := snd desc,
                       iface_comm := word_of_int comm, iface_data := word_of_int data\<rparr>;
            dev2 = (if env_kernel_active env comm then dev1\<lparr>kernel_detached := True\<rparr> else dev1);
            log = [Open_Dev i] @
                  (if env_kernel_active env comm then [Detach i comm] else []) @
                  (if env_kernel_active env data then [Detach i data] else [])
        in if \<not> env_claim_ok env comm then
             (False, dev2, log @ [Close_Dev i, Config_Free i])
           else if \<not> env_claim_ok env data then
             (False, dev2, log @ [Claim i comm, Release i comm, Close_Dev i, Config_Free i])
           else
             let dev3 = endpoints_of (concat config) comm data dev2;
                 dev4 = (if ep_in dev3 = 0 \<or> ep_out dev3 = 0 then
                           (if env_set_alt_ok env then alt1_endpoints (concat config) data dev3
                            else dev3)
                         else dev3);
                 log' = log @ [Claim i comm, Claim i data]
             in if ep_in dev4 \<noteq> 0 \<and> ep_out dev4 \<noteq> 0 then
                  (True, dev4, log' @ [Config_Free i])
                else
                  (False, dev4\<lparr>handle := None\<rparr>,
                   log' @ [Release i data, Release i comm, Close_Dev i, Config_Free i]))"

definition try_device ::
    "nat \<Rightarrow> usb_env_device \<Rightarrow> usb_device \<Rightarrow> bool \<times> usb_device \<times> usb_call list" where
  "try_device i env dev =
     (case env_descriptor env of None \<Rightarrow> (False, dev, [])
      | Some desc \<Rightarrow>
          (case env_config env of None \<Rightarrow> (False, dev, [])
           | Some config \<Rightarrow>
               let (comm, data) = select_interfaces config
               in if comm \<ge> 0 \<and> data \<ge> 0 then
                    (let (found, dev', log) = open_candidate i env desc config comm data dev
                     in (found, dev', Config_Get i # log))
                  else (False, dev, [Config_Get i, Config_Free i])))"

fun try_devices ::
    "nat \<Rightarrow> usb_env_device list \<Rightarrow> usb_device \<Rightarrow> usb_call list \<Rightarrow>
     bool \<times> usb_device \<times> usb_call list" where
  "try_devices i [] dev log = (False, dev, log)"
| "try_devices i (env # envs) dev log =
     (let (found, dev', l) = try_device i env dev
      in if found then (True, dev', log @ l) else try_devices (i + 1) envs dev' (log @ l))"

text \<open>\<open>init_ok\<close> and \<open>list_res\<close>: what \<open>libusb_init\<close> and \<open>libusb_get_device_list\<close> answer.\<close>

definition usb_find_rndis_device ::
    "bool \<Rightarrow> usb_env_device list option \<Rightarrow> int \<times> usb_device \<times> usb_call list" where
  "usb_find_rndis_device init_ok list_res =
     (if \<not> init_ok then (-1, zero_usb_device, [])
      else
        let dev = zero_usb_device\<lparr>usb_ctx := True\<rparr>
        in case list_res of
             None \<Rightarrow> (-1, dev, [Lib_Init, Lib_Exit])
           | Some envs \<Rightarrow>
               let (found, dev', log) = try_devices 0 envs dev [Lib_Init, List_Get];
                   log' = log @ [List_Free]
               in if \<not> found then (-1, dev', log' @ [Lib_Exit]) else (0, dev', log'))"

definition usb_close_device :: "usb_device \<Rightarrow> usb_device \<times> usb_call list" where
  "usb_close_device dev =
     (case handle dev of
        None \<Rightarrow> (dev, [])
      | Some h \<Rightarrow>
          (dev\<lparr>handle := None, usb_ctx := False\<rparr>,
           [Release h (uint (iface_data dev)), Release h (uint (iface_comm dev))] @
           (if kernel_detached dev then [Attach h (uint (iface_comm dev))] else []) @
           [Close_Dev h] @ (if usb_ctx dev then [Lib_Exit] else [])))"

section \<open>Synchronous transfers\<close>

datatype libusb_error = ERROR_TIMEOUT | ERROR_NO_DEVICE | ERROR_INTERRUPTED | ERROR_OTHER

text \<open>
  libusb for the opened device, over an environment state \<open>'d\<close> (the device, the bus, the time).
  A control IN transfer gives the bytes of the answer or an error; a bulk transfer gives an error
  or none, and what it moved.
\<close>

record 'd libusb =
  lib_control_out :: "byte \<Rightarrow> byte \<Rightarrow> u16 \<Rightarrow> u16 \<Rightarrow> buffer \<Rightarrow> 'd \<Rightarrow> (libusb_error + nat) \<times> 'd"
  lib_control_in :: "byte \<Rightarrow> byte \<Rightarrow> u16 \<Rightarrow> u16 \<Rightarrow> nat \<Rightarrow> 'd \<Rightarrow> (libusb_error + buffer) \<times> 'd"
  lib_bulk_out :: "byte \<Rightarrow> buffer \<Rightarrow> int \<Rightarrow> 'd \<Rightarrow> (libusb_error option \<times> nat) \<times> 'd"
  lib_bulk_in :: "byte \<Rightarrow> nat \<Rightarrow> int \<Rightarrow> 'd \<Rightarrow> (libusb_error option \<times> buffer) \<times> 'd"

text \<open>
  The request type is class, interface, host to device (0x21) or device to host (0xA1).  The
  length is cast to \<open>uint16_t\<close>.
\<close>

definition usb_send_ctrl :: "'d libusb \<Rightarrow> usb_device \<Rightarrow> buffer \<Rightarrow> nat \<Rightarrow> 'd \<Rightarrow> (int \<times> 'd) run" where
  "usb_send_ctrl lib dev data len d =
     bindR (rd_bytes data 0 (unat (word_of_nat len :: u16))) (\<lambda>payload.
       case lib_control_out lib 0x21 CDC_SEND_ENCAPSULATED 0 (ucast (iface_comm dev)) payload d of
         (Inl _, d') \<Rightarrow> Inr (-1, d')
       | (Inr n, d') \<Rightarrow> Inr (int (min n (length payload)), d'))"

definition usb_recv_ctrl ::
    "'d libusb \<Rightarrow> usb_device \<Rightarrow> buffer \<Rightarrow> nat \<Rightarrow> 'd \<Rightarrow> (int \<times> buffer \<times> 'd) run" where
  "usb_recv_ctrl lib dev data max_len d =
     (let wLength = unat (word_of_nat max_len :: u16)
      in case lib_control_in lib 0xA1 CDC_GET_ENCAPSULATED 0 (ucast (iface_comm dev)) wLength d of
           (Inl _, d') \<Rightarrow> Inr (-1, data, d')
         | (Inr bs, d') \<Rightarrow>
             bindR (wr_bytes data 0 (take wLength bs)) (\<lambda>data'.
             Inr (int (length (take wLength bs)), data', d')))"

definition usb_send_bulk :: "'d libusb \<Rightarrow> usb_device \<Rightarrow> buffer \<Rightarrow> nat \<Rightarrow> 'd \<Rightarrow> (int \<times> 'd) run" where
  "usb_send_bulk lib dev data len d =
     bindR (rd_bytes data 0 len) (\<lambda>payload.
       case lib_bulk_out lib (ep_out dev) payload USB_BULK_TIMEOUT d of
         ((Some _, _), d') \<Rightarrow> Inr (-1, d')
       | ((None, n), d') \<Rightarrow> Inr (int (min n (length payload)), d'))"

definition usb_recv_bulk ::
    "'d libusb \<Rightarrow> usb_device \<Rightarrow> buffer \<Rightarrow> nat \<Rightarrow> int \<Rightarrow> 'd \<Rightarrow> (int \<times> buffer \<times> 'd) run" where
  "usb_recv_bulk lib dev data max_len timeout_ms d =
     (case lib_bulk_in lib (ep_in dev) max_len timeout_ms d of
        ((err, bs), d') \<Rightarrow>
          bindR (wr_bytes data 0 (take max_len bs)) (\<lambda>data'.
          Inr (case err of
                 Some ERROR_TIMEOUT \<Rightarrow> (0, data', d')
               | Some ERROR_NO_DEVICE \<Rightarrow> (-2, data', d')
               | Some _ \<Rightarrow> (-1, data', d')
               | None \<Rightarrow> (int (length (take max_len bs)), data', d'))))"

section \<open>Resource accounting\<close>

text \<open>
  \<open>account S log\<close> replays a log of libusb calls from the held resources \<open>S\<close> and fails on a misuse:
  a resource acquired twice or given back while not held, a device used without its handle or
  opened without the device list, a handle closed with a claimed interface, the context left with
  anything still held.  Claiming twice and releasing an unclaimed interface are no-ops in libusb.
\<close>

datatype resource = R_Ctx | R_List | R_Config nat | R_Handle nat | R_Iface nat int

fun iface_of :: "nat \<Rightarrow> resource \<Rightarrow> bool" where
  "iface_of i (R_Iface j n) = (i = j)"
| "iface_of i _ = False"

definition acquire :: "resource \<Rightarrow> resource set \<Rightarrow> resource set option" where
  "acquire r S = (if r \<in> S then None else Some (insert r S))"

definition give_back :: "resource \<Rightarrow> resource set \<Rightarrow> resource set option" where
  "give_back r S = (if r \<in> S then Some (S - {r}) else None)"

fun account_step :: "resource set \<Rightarrow> usb_call \<Rightarrow> resource set option" where
  "account_step S Lib_Init = acquire R_Ctx S"
| "account_step S Lib_Exit = (if S = {R_Ctx} then Some {} else None)"
| "account_step S List_Get = acquire R_List S"
| "account_step S List_Free = give_back R_List S"
| "account_step S (Config_Get i) = (if R_List \<in> S then acquire (R_Config i) S else None)"
| "account_step S (Config_Free i) = give_back (R_Config i) S"
| "account_step S (Open_Dev i) = (if R_List \<in> S then acquire (R_Handle i) S else None)"
| "account_step S (Close_Dev i) =
     (if \<forall>r \<in> S. \<not> iface_of i r then give_back (R_Handle i) S else None)"
| "account_step S (Detach i n) = (if R_Handle i \<in> S then Some S else None)"
| "account_step S (Attach i n) = (if R_Handle i \<in> S then Some S else None)"
| "account_step S (Claim i n) = (if R_Handle i \<in> S then Some (insert (R_Iface i n) S) else None)"
| "account_step S (Release i n) = (if R_Handle i \<in> S then Some (S - {R_Iface i n}) else None)"

fun account :: "resource set \<Rightarrow> usb_call list \<Rightarrow> resource set option" where
  "account S [] = Some S"
| "account S (c # cs) = Option.bind (account_step S c) (\<lambda>S'. account S' cs)"

lemma account_append: "account S (xs @ ys) = Option.bind (account S xs) (\<lambda>S'. account S' ys)"
  by (induction xs arbitrary: S) (auto split: bind_splits)

text \<open>Endpoint selection changes the endpoint fields only.\<close>

definition same_device :: "usb_device \<Rightarrow> usb_device \<Rightarrow> bool" where
  "same_device a b \<longleftrightarrow> usb_ctx a = usb_ctx b \<and> handle a = handle b \<and>
     iface_comm a = iface_comm b \<and> iface_data a = iface_data b \<and> vid a = vid b \<and>
     pid a = pid b \<and> kernel_detached a = kernel_detached b"

lemma same_device_refl [simp]: "same_device a a"
  by (simp add: same_device_def)

lemma same_device_trans: "same_device a b \<Longrightarrow> same_device b c \<Longrightarrow> same_device a c"
  by (simp add: same_device_def)

lemma find_endpoint_same: "same_device (find_endpoint c ep dev) dev"
  by (simp add: find_endpoint_def same_device_def Let_def)

lemma find_endpoints_same: "same_device (find_endpoints dev iface c) dev"
proof -
  have "same_device (fold (find_endpoint c) eps dev) dev" for eps
    by (induction eps arbitrary: dev) (auto intro: same_device_trans find_endpoint_same)
  then show ?thesis by (simp add: find_endpoints_def)
qed

lemma endpoints_of_same: "same_device (endpoints_of alts comm data dev) dev"
  by (induction alts arbitrary: dev)
    (auto simp: Let_def intro: same_device_trans find_endpoints_same
      find_endpoints_same [THEN [2] same_device_trans])

lemma alt1_endpoints_same: "same_device (alt1_endpoints alts data dev) dev"
  by (induction alts arbitrary: dev) (auto intro: same_device_trans find_endpoints_same)

section \<open>Interface selection\<close>

definition iface_no :: "int \<Rightarrow> bool" where
  "iface_no n \<longleftrightarrow> n = -1 \<or> 0 \<le> n \<and> n < 256"

lemma iface_no_uint [simp]: "iface_no (uint (b :: byte))"
  using uint_lt2p [of b] by (simp add: iface_no_def)

lemma scan_interfaces_range:
  "scan_interfaces alts (c0, d0) = (c, d) \<Longrightarrow> iface_no c0 \<Longrightarrow> iface_no d0 \<Longrightarrow> iface_no c \<and> iface_no d"
proof (induction alts arbitrary: c0 d0)
  case (Cons a alts)
  let ?c = "if is_rndis_interface a then uint (bInterfaceNumber a) else c0"
  let ?d = "if is_data_interface a \<and> ?c \<ge> 0 then uint (bInterfaceNumber a) else d0"
  have "scan_interfaces alts (?c, ?d) = (c, d)"
    using Cons.prems(1) by (simp add: Let_def)
  moreover have "iface_no ?c" "iface_no ?d" using Cons.prems by auto
  ultimately show ?case by (rule Cons.IH)
qed simp

lemma scan_next_range: "iface_no d0 \<Longrightarrow> iface_no (scan_next alts c d0)"
proof (induction alts arbitrary: d0)
  case (Cons a alts)
  let ?d = "if uint (bInterfaceNumber a) = c + 1 then uint (bInterfaceNumber a) else d0"
  have "iface_no ?d"
    by (rule if_split [where P = iface_no, THEN iffD2]) (use Cons.prems iface_no_uint in blast)
  then have "iface_no (scan_next alts c ?d)" by (rule Cons.IH)
  then show ?case by (simp only: scan_next.simps)
qed simp

lemma select_interfaces_range:
  assumes "select_interfaces config = (comm, data)" "0 \<le> comm" "0 \<le> data"
  shows "comm < 256 \<and> data < 256"
proof -
  obtain c d where cd: "scan_interfaces (concat config) (-1, -1) = (c, d)" by fastforce
  have "iface_no c \<and> iface_no d"
    using scan_interfaces_range [OF cd] by (simp add: iface_no_def)
  with assms cd show ?thesis
    using scan_next_range [of d "concat config" c]
    by (auto simp: select_interfaces_def iface_no_def split: if_splits)
qed

lemma uint_word_of_int_byte [simp]:
  "0 \<le> n \<Longrightarrow> n < 256 \<Longrightarrow> uint (word_of_int n :: byte) = n"
  by (simp add: uint_word_of_int)

section \<open>No resource leaks on any path of the discovery\<close>

definition opened :: "usb_device \<Rightarrow> resource set" where
  "opened dev = (case handle dev of None \<Rightarrow> {}
     | Some i \<Rightarrow> {R_Handle i, R_Iface i (uint (iface_comm dev)), R_Iface i (uint (iface_data dev))})"

lemma open_candidate_account:
  assumes "open_candidate i env desc config comm data dev = (found, dev', log)"
    and "0 \<le> comm" "comm < 256" "0 \<le> data" "data < 256"
  shows "account {R_Ctx, R_List, R_Config i} log =
      Some ({R_Ctx, R_List} \<union> (if found then opened dev' else {})) \<and>
    usb_ctx dev' = usb_ctx dev \<and>
    (found \<longrightarrow> handle dev' = Some i \<and> ep_in dev' \<noteq> 0 \<and> ep_out dev' \<noteq> 0 \<and>
      uint (iface_comm dev') = comm \<and> uint (iface_data dev') = data)"
proof -
  let ?dev1 = "dev\<lparr>handle := Some i, vid := fst desc, pid := snd desc,
      iface_comm := word_of_int comm, iface_data := word_of_int data\<rparr>"
  let ?dev2 = "if env_kernel_active env comm then ?dev1\<lparr>kernel_detached := True\<rparr> else ?dev1"
  let ?dev3 = "endpoints_of (concat config) comm data ?dev2"
  let ?dev4 = "if ep_in ?dev3 = 0 \<or> ep_out ?dev3 = 0 then
      (if env_set_alt_ok env then alt1_endpoints (concat config) data ?dev3 else ?dev3) else ?dev3"
  have "same_device ?dev3 ?dev2" by (rule endpoints_of_same)
  then have "same_device ?dev4 ?dev2"
    by (auto intro: same_device_trans alt1_endpoints_same)
  then have fields: "usb_ctx ?dev4 = usb_ctx dev" "handle ?dev4 = Some i"
      "iface_comm ?dev4 = word_of_int comm" "iface_data ?dev4 = word_of_int data"
    by (simp_all add: same_device_def split: if_splits)
  define d4 where "d4 = ?dev4"
  note fields' = fields [folded d4_def]
  show ?thesis
    using assms(1) fields' assms(2-5)
    unfolding open_candidate_def Let_def d4_def [symmetric]
    by (auto simp: acquire_def give_back_def opened_def account_append split: if_splits)
qed

lemma try_device_account:
  assumes "try_device i env dev = (found, dev', log)"
  shows "account {R_Ctx, R_List} log =
      Some ({R_Ctx, R_List} \<union> (if found then opened dev' else {})) \<and>
    usb_ctx dev' = usb_ctx dev \<and>
    (found \<longrightarrow> handle dev' = Some i \<and> ep_in dev' \<noteq> 0 \<and> ep_out dev' \<noteq> 0 \<and>
      (\<exists>config. env_config env = Some config \<and>
        select_interfaces config = (uint (iface_comm dev'), uint (iface_data dev'))))"
proof (cases "env_descriptor env = None \<or> env_config env = None")
  case True
  with assms show ?thesis by (auto simp: try_device_def split: option.splits)
next
  case False
  then obtain desc config where d: "env_descriptor env = Some desc" "env_config env = Some config"
    by auto
  obtain comm data where sel: "select_interfaces config = (comm, data)" by fastforce
  show ?thesis
  proof (cases "comm \<ge> 0 \<and> data \<ge> 0")
    case False
    with assms d sel show ?thesis
      by (auto simp: try_device_def acquire_def give_back_def)
  next
    case True
    with assms d sel obtain l where
      l: "open_candidate i env desc config comm data dev = (found, dev', l)" "log = Config_Get i # l"
      by (auto simp: try_device_def split: prod.splits)
    have range: "comm < 256 \<and> data < 256"
      using select_interfaces_range [OF sel] True by simp
    have "account {R_Ctx, R_List} log = account {R_Ctx, R_List, R_Config i} l"
      using l by (simp add: acquire_def insert_commute)
    then show ?thesis
      using open_candidate_account [OF l(1)] True range d sel by auto
  qed
qed

lemma try_devices_account:
  assumes "try_devices i envs dev log = (found, dev', log')"
    and "account {} log = Some {R_Ctx, R_List}"
  shows "account {} log' = Some ({R_Ctx, R_List} \<union> (if found then opened dev' else {})) \<and>
    usb_ctx dev' = usb_ctx dev \<and>
    (found \<longrightarrow> ep_in dev' \<noteq> 0 \<and> ep_out dev' \<noteq> 0 \<and>
      (\<exists>k config. k < length envs \<and> handle dev' = Some (i + k) \<and> env_config (envs ! k) = Some config \<and>
        select_interfaces config = (uint (iface_comm dev'), uint (iface_data dev'))))"
  using assms
proof (induction envs arbitrary: i dev log)
  case (Cons env envs)
  obtain f d l where td: "try_device i env dev = (f, d, l)" by (cases "try_device i env dev") auto
  note acc = try_device_account [OF td]
  show ?case
  proof (cases f)
    case True
    with Cons.prems td acc have "found" "dev' = d" "log' = log @ l" by auto
    with True acc Cons.prems(2) show ?thesis
      by (auto simp: account_append intro!: exI [of _ "0 :: nat"])
  next
    case False
    with Cons.prems td have rec: "try_devices (i + 1) envs d (log @ l) = (found, dev', log')" by simp
    have "account {} (log @ l) = Some {R_Ctx, R_List}"
      using False acc Cons.prems(2) by (simp add: account_append)
    note ih = Cons.IH [OF rec this]
    have "\<exists>k config. k < length (env # envs) \<and> handle dev' = Some (i + k) \<and>
        env_config ((env # envs) ! k) = Some config \<and>
        select_interfaces config = (uint (iface_comm dev'), uint (iface_data dev'))" if found
    proof -
      from ih that obtain k config where "k < length envs" "handle dev' = Some (i + 1 + k)"
        "env_config (envs ! k) = Some config"
        "select_interfaces config = (uint (iface_comm dev'), uint (iface_data dev'))" by auto
      then show ?thesis by (intro exI [of _ "Suc k"] exI [of _ config]) simp
    qed
    with ih acc show ?thesis by simp
  qed
qed simp

text \<open>A device that was found goes back to a state with nothing held when it is closed.\<close>

lemma usb_close_device_account:
  assumes "usb_close_device dev = (dev', log)" "handle dev = Some h" "usb_ctx dev"
  shows "account ({R_Ctx} \<union> opened dev) log = Some {}"
proof -
  have op: "{R_Ctx} \<union> opened dev =
      {R_Ctx, R_Handle h, R_Iface h (uint (iface_comm dev)), R_Iface h (uint (iface_data dev))}"
    using assms(2) by (auto simp: opened_def)
  have rel: "account ({R_Ctx} \<union> opened dev)
      [Release h (uint (iface_data dev)), Release h (uint (iface_comm dev))] = Some {R_Ctx, R_Handle h}"
    unfolding op by auto
  have rest: "account {R_Ctx, R_Handle h} ((if kernel_detached dev
      then [Attach h (uint (iface_comm dev))] else []) @ [Close_Dev h] @ [Lib_Exit]) = Some {}"
    by (auto simp: give_back_def)
  have log_eq: "log = [Release h (uint (iface_data dev)), Release h (uint (iface_comm dev))] @
      ((if kernel_detached dev then [Attach h (uint (iface_comm dev))] else []) @ [Close_Dev h] @ [Lib_Exit])"
    using assms by (auto simp: usb_close_device_def)
  show ?thesis
    unfolding log_eq by (subst account_append) (simp only: rel rest bind.bind_lunit)
qed

section \<open>Transfers\<close>

lemma usb_recv_ctrl_runs:
  assumes "max_len \<le> length data"
  shows "runs_to (usb_recv_ctrl lib dev data max_len d) (\<lambda>(r, data', d').
    length data' = length data \<and> (r = -1 \<and> data' = data \<or> 0 \<le> r \<and> r \<le> int max_len \<and> nat r \<le> length data'))"
proof -
  have "unat (word_of_nat max_len :: u16) \<le> max_len"
    by (simp add: unat_of_nat)
  with assms show ?thesis
    by (auto simp: usb_recv_ctrl_def Let_def run_simps split: prod.splits sum.splits)
qed

lemma usb_send_ctrl_runs:
  assumes "len \<le> length data"
  shows "runs_to (usb_send_ctrl lib dev data len d) (\<lambda>(r, d'). r = -1 \<or> 0 \<le> r \<and> r \<le> int len)"
proof -
  have "unat (word_of_nat len :: u16) \<le> len"
    by (simp add: unat_of_nat)
  with assms show ?thesis
    by (auto simp: usb_send_ctrl_def run_simps split: prod.splits sum.splits)
qed

lemma usb_send_bulk_runs:
  assumes "len \<le> length data"
  shows "runs_to (usb_send_bulk lib dev data len d) (\<lambda>(r, d'). r = -1 \<or> 0 \<le> r \<and> r \<le> int len)"
  using assms
  by (auto simp: usb_send_bulk_def run_simps split: prod.splits option.splits)

lemma usb_recv_bulk_runs:
  assumes "max_len \<le> length data"
  shows "runs_to (usb_recv_bulk lib dev data max_len t d) (\<lambda>(r, data', d').
    length data' = length data \<and> (r = -1 \<or> r = -2 \<or> 0 \<le> r \<and> r \<le> int max_len))"
  using assms
  by (auto simp: usb_recv_bulk_def run_simps split: prod.splits option.splits libusb_error.splits)

lemma usb_find_account:
  "case usb_find_rndis_device init_ok list_res of (r, dev, log) \<Rightarrow>
     (r = -1 \<and> account {} log = Some {}) \<or>
     (r = 0 \<and> handle dev \<noteq> None \<and> ep_in dev \<noteq> 0 \<and> ep_out dev \<noteq> 0 \<and>
      account {} log = Some ({R_Ctx} \<union> opened dev) \<and>
      account {} (log @ snd (usb_close_device dev)) = Some {})"
proof (cases "init_ok \<and> list_res \<noteq> None")
  case False
  then show ?thesis by (auto simp: usb_find_rndis_device_def acquire_def split: option.splits)
next
  case True
  then obtain envs where envs: "init_ok" "list_res = Some envs" by auto
  let ?dev = "zero_usb_device\<lparr>usb_ctx := True\<rparr>"
  obtain f d l where td: "try_devices 0 envs ?dev [Lib_Init, List_Get] = (f, d, l)"
    by (cases "try_devices 0 envs ?dev [Lib_Init, List_Get]") auto
  have base: "account {} [Lib_Init, List_Get] = Some {R_Ctx, R_List}"
    by (simp add: acquire_def insert_commute)
  have acc: "account {} l = Some ({R_Ctx, R_List} \<union> (if f then opened d else {}))"
      "usb_ctx d" "f \<Longrightarrow> ep_in d \<noteq> 0 \<and> ep_out d \<noteq> 0 \<and> (\<exists>k. handle d = Some k)"
    using try_devices_account [OF td base] by auto
  show ?thesis
  proof (cases f)
    case False
    with acc td envs show ?thesis
      by (auto simp: usb_find_rndis_device_def account_append give_back_def)
  next
    case True
    have "{R_Ctx, R_List} \<union> opened d - {R_List} = {R_Ctx} \<union> opened d"
      by (auto simp: opened_def split: option.splits)
    with True acc have log: "account {} (l @ [List_Free]) = Some ({R_Ctx} \<union> opened d)"
      by (simp add: account_append give_back_def)
    obtain h d' cl where "handle d = Some h" "usb_close_device d = (d', cl)"
      using acc(3) True by (cases "usb_close_device d") auto
    with log acc have "account {} ((l @ [List_Free]) @ snd (usb_close_device d)) = Some {}"
      using usb_close_device_account [of d d' cl h] by (simp only: account_append bind.bind_lunit snd_conv)
    with True acc td envs log show ?thesis
      by (auto simp: usb_find_rndis_device_def)
  qed
qed

section \<open>Properties\<close>

text \<open>
  C9: \<open>usb_find_rndis_device\<close> leaks nothing and misuses nothing, whatever devices are attached and
  whichever libusb call fails: on \<open>-1\<close> every configuration descriptor, handle, claimed interface,
  the device list and the context have been given back exactly once; on 0 the context, one handle
  and its two claimed interfaces are held, both bulk endpoints are set, and \<open>usb_close_device\<close>
  then gives everything back.
\<close>

theorem usb_discovery_leaks_nothing:
  "case usb_find_rndis_device init_ok list_res of (r, dev, log) \<Rightarrow>
     (r = -1 \<and> account {} log = Some {}) \<or>
     (r = 0 \<and> handle dev \<noteq> None \<and> ep_in dev \<noteq> 0 \<and> ep_out dev \<noteq> 0 \<and>
      account {} log = Some ({R_Ctx} \<union> opened dev) \<and>
      account {} (log @ snd (usb_close_device dev)) = Some {})"
  by (rule usb_find_account)

lemma scan_interfaces_selects:
  assumes "scan_interfaces alts (c0, d0) = (c, d)"
  shows "(c = c0 \<or> (\<exists>a \<in> set alts. is_rndis_interface a \<and> c = uint (bInterfaceNumber a))) \<and>
    (d = d0 \<or> (\<exists>a \<in> set alts. is_data_interface a \<and> d = uint (bInterfaceNumber a)))"
  using assms
proof (induction alts arbitrary: c0 d0)
  case (Cons a alts)
  let ?c = "if is_rndis_interface a then uint (bInterfaceNumber a) else c0"
  let ?d = "if is_data_interface a \<and> ?c \<ge> 0 then uint (bInterfaceNumber a) else d0"
  have "scan_interfaces alts (?c, ?d) = (c, d)"
    using Cons.prems by (simp add: Let_def)
  from Cons.IH [OF this] show ?case by (auto split: if_splits)
qed simp

lemma scan_next_selects:
  "scan_next alts c d0 = d0 \<or>
   (scan_next alts c d0 = c + 1 \<and> (\<exists>a \<in> set alts. uint (bInterfaceNumber a) = c + 1))"
proof (induction alts arbitrary: d0)
  case (Cons a alts)
  let ?d = "if uint (bInterfaceNumber a) = c + 1 then uint (bInterfaceNumber a) else d0"
  have "scan_next (a # alts) c d0 = scan_next alts c ?d" by (simp only: scan_next.simps)
  with Cons.IH [of ?d] show ?case by (cases "uint (bInterfaceNumber a) = c + 1") auto
qed simp


definition demo_alt :: "byte \<Rightarrow> byte \<Rightarrow> byte \<Rightarrow> byte \<Rightarrow> endpoint_desc list \<Rightarrow> iface_desc" where
  "demo_alt n c s p eps = \<lparr>bInterfaceNumber = n, bAlternateSetting = 0, bInterfaceClass = c,
     bInterfaceSubClass = s, bInterfaceProtocol = p, endpoints = eps\<rparr>"


text \<open>
  The endpoint fields survive from one candidate to the next.  Two devices, the first with a bulk
  IN endpoint 0x81 only, the second with a bulk OUT endpoint 0x02 only: the first is skipped, the
  second is accepted as complete with the IN endpoint of the first.
\<close>

definition half_device :: "endpoint_desc \<Rightarrow> usb_env_device" where
  "half_device ep = \<lparr>env_descriptor = Some (0x18D1, 0x4EE4),
     env_config = Some [[demo_alt 0 0xE0 1 3 []], [demo_alt 1 0x0A 0 0 [ep]]],
     env_open_ok = True, env_kernel_active = (\<lambda>_. False), env_claim_ok = (\<lambda>_. True),
     env_set_alt_ok = False\<rparr>"

lemma stale_endpoint_accepted:
  "case usb_find_rndis_device True (Some
      [half_device \<lparr>bEndpointAddress = 0x81, bmAttributes = 2, wMaxPacketSize = 512\<rparr>,
       half_device \<lparr>bEndpointAddress = 0x02, bmAttributes = 2, wMaxPacketSize = 512\<rparr>]) of
     (r, dev, log) \<Rightarrow> r = 0 \<and> handle dev = Some 1 \<and> ep_in dev = 0x81 \<and> ep_out dev = 0x02"
  by (simp add: usb_find_rndis_device_def try_device_def open_candidate_def half_device_def
      demo_alt_def select_interfaces_def is_rndis_interface_def is_data_interface_def
      find_endpoints_def find_endpoint_def zero_usb_device_def Let_def)

end
