(* ===== verification/Net_Types.thy ===== *)
theory Net_Types
  imports Tether_Prelude
begin

text \<open>
  \<^verbatim>\<open>include/net_types.h\<close>: buffer sizes, protocol constants and the Ethernet header.  The ethertype of
  the record is the value after \<open>ntohs\<close>; in the frame it is big endian.
\<close>

definition RNDIS_BUF_SIZE :: nat where [simp]: "RNDIS_BUF_SIZE = 32768"
definition ETH_BUF_SIZE :: nat where [simp]: "ETH_BUF_SIZE = 2048"
definition ARP_ETHERTYPE :: u16 where [simp]: "ARP_ETHERTYPE = 0x0806"
definition ARP_HW_ETHERNET :: u16 where [simp]: "ARP_HW_ETHERNET = 1"
definition ARP_OP_REQUEST :: u16 where [simp]: "ARP_OP_REQUEST = 1"
definition ARP_OP_REPLY :: u16 where [simp]: "ARP_OP_REPLY = 2"
definition DHCP_SERVER_PORT :: u16 where [simp]: "DHCP_SERVER_PORT = 67"
definition DHCP_CLIENT_PORT :: u16 where [simp]: "DHCP_CLIENT_PORT = 68"
definition DHCP_MAGIC_COOKIE :: u32 where [simp]: "DHCP_MAGIC_COOKIE = 0x63825363"
definition DEFAULT_STATIC_IP :: string where "DEFAULT_STATIC_IP = ''192.168.42.100''"
definition DEFAULT_GATEWAY :: string where "DEFAULT_GATEWAY = ''192.168.42.129''"
definition DEFAULT_NETMASK :: string where "DEFAULT_NETMASK = ''255.255.255.0''"
definition DEFAULT_DNS1 :: string where "DEFAULT_DNS1 = ''8.8.8.8''"
definition DEFAULT_DNS2 :: string where "DEFAULT_DNS2 = ''8.8.4.4''"

record eth_hdr =
  eth_dst :: buffer
  eth_src :: buffer
  eth_ethertype :: u16

definition sizeof_eth_hdr :: nat where [simp]: "sizeof_eth_hdr = 14"

definition enc_eth_hdr :: "eth_hdr \<Rightarrow> buffer" where
  "enc_eth_hdr h = eth_dst h @ eth_src h @ be16 (eth_ethertype h)"

definition dec_eth_hdr :: "buffer \<Rightarrow> eth_hdr" where
  "dec_eth_hdr s = \<lparr>eth_dst = take 6 s, eth_src = take 6 (drop 6 s), eth_ethertype = be16_at s 12\<rparr>"

lemma length_enc_eth_hdr [simp]:
  "length (eth_dst h) = 6 \<Longrightarrow> length (eth_src h) = 6 \<Longrightarrow> length (enc_eth_hdr h) = 14"
  by (simp add: enc_eth_hdr_def)

lemma dec_enc_eth_hdr:
  "length (eth_dst h) = 6 \<Longrightarrow> length (eth_src h) = 6 \<Longrightarrow> dec_eth_hdr (enc_eth_hdr h @ s) = h"
  by (simp add: dec_eth_hdr_def enc_eth_hdr_def)

end
