(* ===== verification/Proto_Rndis.thy ===== *)
theory Proto_Rndis
  imports Rndis Usb_Device Net_Types
begin

text \<open>
  \<^verbatim>\<open>include/proto_driver.h\<close> and \<^verbatim>\<open>src/proto_rndis.c\<close>: the protocol driver interface and its RNDIS
  driver.  The driver's control dialogue runs over a channel with two operations (locale
  \<open>control_channel\<close>, interpreted on \<open>usb_send_ctrl\<close> and \<open>usb_recv_ctrl\<close>).  The loop that cuts a bulk
  transfer into messages is written once, for an arbitrary message handler (\<open>rndis_walk\<close>): the
  source has it three times, here in \<open>rndis_drv_unwrap_data\<close> and twice in \<^verbatim>\<open>src/dhcp.c\<close>.  Its offset
  is a \<open>uint32_t\<close> that can wrap around, so it takes fuel.
\<close>

section \<open>USB interface filters\<close>

record usb_iface_filter =
  f_bclass :: byte
  f_subclass :: byte
  f_protocol :: byte

definition rndis_drv_get_usb_filters :: "int \<Rightarrow> usb_iface_filter list" where
  "rndis_drv_get_usb_filters max_filters =
     (if max_filters < 4 then []
      else [\<lparr>f_bclass = USB_CLASS_WIRELESS, f_subclass = USB_SUBCLASS_RNDIS, f_protocol = USB_PROTOCOL_RNDIS\<rparr>,
            \<lparr>f_bclass = USB_CLASS_CDC, f_subclass = USB_SUBCLASS_ACM, f_protocol = USB_PROTOCOL_RNDIS\<rparr>,
            \<lparr>f_bclass = USB_CLASS_CDC, f_subclass = USB_SUBCLASS_VENDOR, f_protocol = USB_PROTOCOL_RNDIS\<rparr>,
            \<lparr>f_bclass = 0xFF, f_subclass = 0x01, f_protocol = 0x03\<rparr>])"

section \<open>The message loop of a bulk transfer\<close>

text \<open>
  \<open>body pkt msg_len s\<close> runs for the message at pointer \<open>pkt\<close>; its flag says that the loop
  is left.  All offsets and sums are \<open>uint32_t\<close>.
\<close>

fun rndis_walk ::
    "(buffer \<Rightarrow> u32 \<Rightarrow> 's \<Rightarrow> (bool \<times> 's) run) \<Rightarrow> nat \<Rightarrow> buffer \<Rightarrow> u32 \<Rightarrow> u32 \<Rightarrow> 's \<Rightarrow> (bool \<times> 's) run" where
  "rndis_walk body 0 buf len off s = Inl No_Fuel"
| "rndis_walk body (Suc fuel) buf len off s =
     (if off + 8 \<le> len then
        bindR (rd_u32 buf (unat off + 4)) (\<lambda>msg_len.
          if msg_len = 0 \<or> off + msg_len > len then Inr (False, s)
          else bindR (body (drop (unat off) buf) msg_len s) (\<lambda>(stop, s').
            if stop then Inr (True, s')
            else rndis_walk body fuel buf len (off + msg_len) s'))
      else Inr (False, s))"

definition unwrap_message ::
    "(buffer \<Rightarrow> nat \<Rightarrow> 'c \<Rightarrow> 'c run) \<Rightarrow> buffer \<Rightarrow> u32 \<Rightarrow> 'c \<Rightarrow> (bool \<times> 'c) run" where
  "unwrap_message on_frame pkt msg_len ctx =
     bindR (rndis_parse_data_packet pkt (unat msg_len)) (\<lambda>(r, fr).
       case fr of
         Some (start, frame_len) \<Rightarrow>
           bindR (on_frame (drop start pkt) frame_len ctx) (\<lambda>ctx'. Inr (False, ctx'))
       | None \<Rightarrow> Inr (False, ctx))"

definition rndis_drv_unwrap_data ::
    "nat \<Rightarrow> buffer \<Rightarrow> nat \<Rightarrow> (buffer \<Rightarrow> nat \<Rightarrow> 'c \<Rightarrow> 'c run) \<Rightarrow> 'c \<Rightarrow> (int \<times> 'c) run" where
  "rndis_drv_unwrap_data fuel usb_data usb_len on_frame ctx =
     bindR (rndis_walk (unwrap_message on_frame) fuel usb_data (word_of_nat usb_len) 0 ctx)
       (\<lambda>(_, ctx'). Inr (0, ctx'))"

definition rndis_drv_wrap_frame :: "buffer \<Rightarrow> nat \<Rightarrow> buffer \<Rightarrow> nat \<Rightarrow> (int \<times> buffer) run" where
  "rndis_drv_wrap_frame eth eth_len out out_size = rndis_build_data_packet out out_size eth eth_len"

section \<open>The control dialogue\<close>

text \<open>Send the request in \<open>buf\<close>, sleep, receive the answer into \<open>buf\<close>; -1 where either fails.\<close>

definition ctrl_exchange ::
    "(buffer \<Rightarrow> nat \<Rightarrow> 'd \<Rightarrow> (int \<times> 'd) run) \<Rightarrow> (buffer \<Rightarrow> nat \<Rightarrow> 'd \<Rightarrow> (int \<times> buffer \<times> 'd) run) \<Rightarrow>
     buffer \<Rightarrow> nat \<Rightarrow> 'd \<Rightarrow> (int \<times> buffer \<times> 'd) run" where
  "ctrl_exchange send recv buf len d =
     bindR (send buf len d) (\<lambda>(ret, d1).
       if ret < 0 then Inr (-1, buf, d1)
       else bindR (recv buf RNDIS_BUF_SIZE d1) (\<lambda>(ret', buf', d2).
         if ret' < 0 then Inr (-1, buf', d2) else Inr (ret', buf', d2)))"

definition fallback_mac :: buffer where
  "fallback_mac = [0x02, 0x42, 0xAC, 0x11, 0x00, 0x01]"

definition packet_filter :: u32 where
  "packet_filter = RNDIS_PACKET_TYPE_DIRECTED OR RNDIS_PACKET_TYPE_MULTICAST OR
     RNDIS_PACKET_TYPE_ALL_MULTICAST OR RNDIS_PACKET_TYPE_BROADCAST"

text \<open>Step 3 of the initialisation: set the packet filter; a refusal is only logged.\<close>

definition init_set_filter where
  "init_set_filter send recv buf st d =
     bindR (rndis_build_set buf RNDIS_BUF_SIZE OID_GEN_CURRENT_PACKET_FILTER
              (le32 packet_filter) 4 st) (\<lambda>(len, buf1, st1).
       if len < 0 then Inr (-1, st1, d)
       else bindR (ctrl_exchange send recv buf1 (nat len) d) (\<lambda>(ret, buf2, d1).
         if ret < 0 then Inr (-1, st1, d1)
         else bindR (rndis_parse_set_cmplt buf2 (nat ret)) (\<lambda>_.
           Inr (0 :: int, st1\<lparr>link_up := 1\<rparr>, d1))))"

text \<open>Step 2: ask for the MAC address; a refusal gives the fallback address.\<close>

definition init_query_mac where
  "init_query_mac send recv buf st d =
     bindR (rndis_build_query buf RNDIS_BUF_SIZE OID_802_3_PERMANENT_ADDRESS st) (\<lambda>(len, buf1, st1).
       if len < 0 then Inr (-1, st1, d)
       else bindR (ctrl_exchange send recv buf1 (nat len) d) (\<lambda>(ret, buf2, d1).
         if ret < 0 then Inr (-1, st1, d1)
         else bindR (rndis_parse_query_cmplt buf2 (nat ret) (Some (mac_addr st1, 6))) (\<lambda>(q, out).
           let st2 = (if q < 0 then st1\<lparr>mac_addr := fallback_mac\<rparr>
                      else case out of Some (mac, _) \<Rightarrow> st1\<lparr>mac_addr := mac\<rparr> | None \<Rightarrow> st1)
           in init_set_filter send recv buf2 st2 d1)))"

text \<open>Step 1: the INITIALIZE request.  \<open>buf\<close> is the uninitialised stack buffer.\<close>

definition init_dialogue where
  "init_dialogue send recv buf st d =
     bindR (rndis_build_init buf RNDIS_BUF_SIZE st) (\<lambda>(len, buf1, st1).
       if len < 0 then Inr (-1, st1, d)
       else bindR (ctrl_exchange send recv buf1 (nat len) d) (\<lambda>(ret, buf2, d1).
         if ret < 0 then Inr (-1, st1, d1)
         else bindR (rndis_parse_init_cmplt buf2 (nat ret) st1) (\<lambda>(p, st2).
           if p < 0 then Inr (-1, st2, d1)
           else init_query_mac send recv buf2 st2 d1)))"

definition rndis_drv_init ::
    "'d libusb \<Rightarrow> usb_device \<Rightarrow> buffer \<Rightarrow> rndis_state \<Rightarrow> 'd \<Rightarrow> (int \<times> rndis_state \<times> 'd) run" where
  "rndis_drv_init lib usb buf st d =
     init_dialogue (usb_send_ctrl lib usb) (usb_recv_ctrl lib usb) buf st d"

definition rndis_drv_get_mac :: "rndis_state \<Rightarrow> int \<times> buffer" where
  "rndis_drv_get_mac st = (0, mac_addr st)"

text \<open>The results of the two transfers are ignored and the call returns 0.\<close>

definition keepalive_over where
  "keepalive_over send recv buf st d =
     bindR (rndis_build_keepalive buf RNDIS_BUF_SIZE st) (\<lambda>(klen, buf1, st1).
       if klen > 0 then
         bindR (send buf1 (nat klen) d) (\<lambda>(_, d1).
         bindR (recv buf1 RNDIS_BUF_SIZE d1) (\<lambda>(_, _, d2). Inr (0 :: int, st1, d2)))
       else Inr (0, st1, d))"

definition rndis_drv_keepalive ::
    "'d libusb \<Rightarrow> usb_device \<Rightarrow> buffer \<Rightarrow> rndis_state \<Rightarrow> 'd \<Rightarrow> (int \<times> rndis_state \<times> 'd) run" where
  "rndis_drv_keepalive lib usb buf st d =
     keepalive_over (usb_send_ctrl lib usb) (usb_recv_ctrl lib usb) buf st d"

section \<open>The driver table\<close>

text \<open>
  \<open>proto_driver_t\<close>: function pointers that may be null, and the private state.  \<open>'c\<close> is the type
  behind the \<open>ctx\<close> pointer of the frame callback.
\<close>

record ('d, 'c) proto_driver =
  drv_name :: "string option"
  drv_init :: "(buffer \<Rightarrow> rndis_state \<Rightarrow> 'd \<Rightarrow> (int \<times> rndis_state \<times> 'd) run) option"
  drv_get_mac :: "(rndis_state \<Rightarrow> int \<times> buffer) option"
  drv_wrap_frame :: "(buffer \<Rightarrow> nat \<Rightarrow> buffer \<Rightarrow> nat \<Rightarrow> (int \<times> buffer) run) option"
  drv_unwrap_data ::
    "(nat \<Rightarrow> buffer \<Rightarrow> nat \<Rightarrow> (buffer \<Rightarrow> nat \<Rightarrow> 'c \<Rightarrow> 'c run) \<Rightarrow> 'c \<Rightarrow> (int \<times> 'c) run) option"
  drv_keepalive :: "(buffer \<Rightarrow> rndis_state \<Rightarrow> 'd \<Rightarrow> (int \<times> rndis_state \<times> 'd) run) option"
  drv_get_usb_filters :: "(int \<Rightarrow> usb_iface_filter list) option"
  drv_destroy :: bool
  drv_priv :: rndis_state

definition proto_driver_validate :: "('d, 'c) proto_driver option \<Rightarrow> int" where
  "proto_driver_validate drv =
     (case drv of None \<Rightarrow> -1
      | Some d \<Rightarrow>
          if drv_name d = None \<or> drv_init d = None \<or> drv_get_mac d = None \<or>
             drv_wrap_frame d = None \<or> drv_unwrap_data d = None \<or> \<not> drv_destroy d
          then -1 else 0)"

definition zero_rndis_state :: rndis_state where
  "zero_rndis_state = \<lparr>request_id = 0, max_transfer_size = 0, medium = 0,
     mac_addr = replicate 6 0, link_up = 0\<rparr>"

text \<open>\<open>drv_mem\<close> and \<open>state_mem\<close> say whether the two \<open>calloc\<close> calls succeed.\<close>

definition proto_rndis_create ::
    "bool \<Rightarrow> bool \<Rightarrow> 'd libusb \<Rightarrow> usb_device \<Rightarrow> ('d, 'c) proto_driver option" where
  "proto_rndis_create drv_mem state_mem lib usb =
     (if \<not> drv_mem then None
      else if \<not> state_mem then None
      else Some \<lparr>drv_name = Some ''rndis'',
             drv_init = Some (rndis_drv_init lib usb),
             drv_get_mac = Some rndis_drv_get_mac,
             drv_wrap_frame = Some rndis_drv_wrap_frame,
             drv_unwrap_data = Some rndis_drv_unwrap_data,
             drv_keepalive = Some (rndis_drv_keepalive lib usb),
             drv_get_usb_filters = Some rndis_drv_get_usb_filters,
             drv_destroy = True,
             drv_priv = zero_rndis_state\<rparr>)"

section \<open>The message loop: termination, safety, order\<close>

text \<open>
  No length field of the transfer reaches \<open>2 ^ 32\<close> minus the length of the transfer, so that no sum
  \<open>offset + msg_len\<close> wraps around.
\<close>

definition no_wrap :: "buffer \<Rightarrow> nat \<Rightarrow> bool" where
  "no_wrap buf len = list_all (\<lambda>k. unat (u32_at buf (k + 4)) + len < 2 ^ 32) [0..<len - 7]"

lemma no_wrapD: "no_wrap buf len \<Longrightarrow> k + 8 \<le> len \<Longrightarrow> unat (u32_at buf (k + 4)) + len < 2 ^ 32"
  by (auto simp: no_wrap_def list_all_iff)

text \<open>
  The contract between the loop and the body it runs: in a good message the body has a defined
  result and keeps the invariant of the state.
\<close>

locale message_handler =
  fixes body :: "buffer \<Rightarrow> u32 \<Rightarrow> 's \<Rightarrow> (bool \<times> 's) run"
    and good :: "buffer \<Rightarrow> u32 \<Rightarrow> bool"
    and inv :: "'s \<Rightarrow> bool"
  assumes body_runs: "inv s \<Longrightarrow> good pkt m \<Longrightarrow> 0 < m \<Longrightarrow> unat m \<le> length pkt \<Longrightarrow>
    runs_to (body pkt m s) (\<lambda>(stop, s'). inv s')"
begin

lemma walk_from:
  assumes "inv s" "unat len + 8 < 2 ^ 32" "unat len \<le> length buf" "no_wrap buf (unat len)"
    and "\<And>k. k + 8 \<le> unat len \<Longrightarrow> good (drop k buf) (u32_at buf (k + 4))"
    and "unat off \<le> unat len" "unat len - unat off < fuel"
  shows "runs_to (rndis_walk body fuel buf len off s) (\<lambda>(stop, s'). inv s')"
  using assms(1,6,7)
proof (induction fuel arbitrary: off s)
  case (Suc fuel)
  let ?m = "u32_at buf (unat off + 4)"
  have off8: "unat (off + 8) = unat off + 8"
    using assms(2) Suc.prems(2) by (intro u32_add_nowrap [THEN trans]) auto
  show ?case
  proof (cases "unat off + 8 \<le> unat len")
    case False
    then show ?thesis using Suc.prems(1) by (simp add: u32_le_iff off8)
  next
    case True
    have "unat ?m + unat len < 2 ^ 32" using no_wrapD [OF assms(4) True] .
    then have sum: "unat (off + ?m) = unat off + unat ?m"
      using Suc.prems(2) by (intro u32_add_nowrap) simp
    show ?thesis
    proof (cases "?m = 0 \<or> off + ?m > len")
      case stop: True
      then show ?thesis using True Suc.prems(1) assms(3) by (auto simp: u32_le_iff off8)
    next
      case go: False
      then have m: "0 < ?m" "unat off + unat ?m \<le> unat len"
        using sum by (auto simp: word_neq_0_conv not_less word_le_nat_alt)
      then have "runs_to (body (drop (unat off) buf) ?m s) (\<lambda>(stop, s'). inv s')"
        using Suc.prems(1) assms(3,5) True by (intro body_runs) auto
      then obtain stop s' where b: "body (drop (unat off) buf) ?m s = Inr (stop, s')" "inv s'"
        by (auto elim!: runs_toE)
      have "0 < unat ?m" using m(1) by (simp add: unat_gt_0 word_neq_0_conv)
      then have "runs_to (rndis_walk body fuel buf len (off + ?m) s') (\<lambda>(stop, s'). inv s')"
        using m sum Suc.prems b(2) by (intro Suc.IH) auto
      then show ?thesis
        using b go True assms(3) by (simp add: u32_le_iff off8)
    qed
  qed
qed simp

lemma walk_runs:
  assumes "inv s" "len + 8 < 2 ^ 32" "len \<le> length buf" "no_wrap buf len"
    and "\<And>k. k + 8 \<le> len \<Longrightarrow> good (drop k buf) (u32_at buf (k + 4))" "len < fuel"
  shows "runs_to (rndis_walk body fuel buf (word_of_nat len) 0 s) (\<lambda>(stop, s'). inv s')"
  using assms by (intro walk_from) auto

end

text \<open>A consumer of frames: called on a frame inside its object, it is defined and keeps \<open>inv\<close>.\<close>

locale frame_consumer =
  fixes on_frame :: "buffer \<Rightarrow> nat \<Rightarrow> 'c \<Rightarrow> 'c run" and inv :: "'c \<Rightarrow> bool"
  assumes on_frame_runs: "inv c \<Longrightarrow> 0 < n \<Longrightarrow> n \<le> length frame \<Longrightarrow> runs_to (on_frame frame n c) inv"
begin

lemma unwrap_message_runs:
  assumes "inv c" "unat m \<le> length pkt"
  shows "runs_to (unwrap_message on_frame pkt m c) (\<lambda>(stop, c'). inv c')"
proof -
  from parse_data_packet_runs [OF assms(2)] obtain r fr
    where p: "rndis_parse_data_packet pkt (unat m) = Inr (r, fr)"
      "case fr of None \<Rightarrow> True | Some (start, n) \<Rightarrow> 0 < n \<and> start + n \<le> unat m"
    by (auto elim!: runs_toE split: option.splits)
  show ?thesis
  proof (cases fr)
    case None
    with p assms show ?thesis by (simp add: unwrap_message_def)
  next
    case (Some sn)
    then obtain start n where fr: "fr = Some (start, n)" by (cases sn) auto
    then have "0 < n" "n \<le> length (drop start pkt)" using p(2) assms(2) by auto
    then have "runs_to (on_frame (drop start pkt) n c) inv" using assms(1) by (intro on_frame_runs)
    then show ?thesis using p(1) fr by (simp add: unwrap_message_def run_simps)
  qed
qed

end

sublocale frame_consumer \<subseteq> message_handler "unwrap_message on_frame" "\<lambda>_ _. True" inv
  by unfold_locales (rule unwrap_message_runs)

context frame_consumer
begin

lemma unwrap_data_runs:
  assumes "inv c" "usb_len + 8 < 2 ^ 32" "usb_len \<le> length usb_data" "no_wrap usb_data usb_len"
    and "usb_len < fuel"
  shows "runs_to (rndis_drv_unwrap_data fuel usb_data usb_len on_frame c) (\<lambda>(r, c'). r = 0 \<and> inv c')"
  unfolding rndis_drv_unwrap_data_def runs_to_bind
  by (rule runs_to_mono [OF walk_runs [OF assms(1-4) _ assms(5)]]) auto

end

text \<open>Messages as a device sends them: a data message with trailing alignment bytes.\<close>

definition wire_message :: "buffer \<times> buffer \<Rightarrow> buffer" where
  "wire_message = (\<lambda>(f, p).
     enc_data_packet (data_packet_header (44 + length f + length p) (length f)) @ f @ p)"

lemma length_wire_message [simp]:
  "length (wire_message (f, p)) = 44 + length f + length p"
  by (simp add: wire_message_def)

lemma u32_at_wire_message:
  "44 + length f + length p < 2 ^ 32 \<Longrightarrow>
     u32_at (wire_message (f, p) @ rest) 4 = word_of_nat (44 + length f + length p)"
  by (simp add: wire_message_def enc_data_packet_def enc_u32s_Cons data_packet_header_def)

lemma unwrap_message_wire:
  assumes "0 < length f" "44 + length f + length p < 2 ^ 32"
    and "\<And>rest. on_frame (f @ rest) (length f) c = Inr (g f c)"
  shows "unwrap_message on_frame (wire_message (f, p) @ rest)
      (word_of_nat (44 + length f + length p)) c = Inr (False, g f c)"
proof -
  have "unat (word_of_nat (44 + length f + length p) :: u32) = 44 + length f + length p"
    using assms(2) by (intro unat_of_nat_u32) simp
  then show ?thesis
    using assms by (simp add: unwrap_message_def wire_message_def parse_wire_message del: of_nat_add)
qed

lemma walk_wire:
  assumes "\<And>f p. (f, p) \<in> set ms \<Longrightarrow> 0 < length f"
    and "\<And>f p rest c. (f, p) \<in> set ms \<Longrightarrow> Q c \<Longrightarrow> on_frame (f @ rest) (length f) c = Inr (g f c)"
    and "\<And>f p c. (f, p) \<in> set ms \<Longrightarrow> Q c \<Longrightarrow> Q (g f c)" "Q c"
    and "length pre + length (concat (map wire_message ms)) + 8 < 2 ^ 32" "length ms < fuel"
  shows "rndis_walk (unwrap_message on_frame) fuel (pre @ concat (map wire_message ms) @ rest)
      (word_of_nat (length pre + length (concat (map wire_message ms)))) (word_of_nat (length pre)) c =
    Inr (False, fold g (map fst ms) c)"
  using assms
proof (induction ms arbitrary: pre c fuel)
  case Nil
  then obtain k where k: "fuel = Suc k" by (cases fuel) auto
  have "unat (word_of_nat (length pre) + 8 :: u32) = length pre + 8"
    using Nil.prems(5) by (intro u32_add_nowrap [THEN trans]) auto
  with k Nil.prems(5) show ?case by (simp add: u32_le_iff)
next
  case (Cons m ms)
  obtain f p where m: "m = (f, p)" by (cases m)
  obtain k where k: "fuel = Suc k" "length ms < k" using Cons.prems(6) by (cases fuel) auto
  let ?n = "44 + length f + length p"
  let ?tail = "concat (map wire_message ms)"
  let ?buf = "pre @ wire_message (f, p) @ ?tail @ rest"
  let ?off = "word_of_nat (length pre) :: u32"
  let ?len = "word_of_nat (length pre + ?n + length ?tail) :: u32"
  have small: "length pre + ?n + length ?tail + 8 < 2 ^ 32" using Cons.prems(5) m by simp
  have off8: "unat (?off + 8) = length pre + 8"
    using small by (intro u32_add_nowrap [THEN trans]) auto
  have len: "unat ?len = length pre + ?n + length ?tail" using small by (intro unat_of_nat_u32) simp
  have mlen: "u32_at ?buf (length pre + 4) = word_of_nat ?n"
    using small u32_at_wire_message [of f p "?tail @ rest"] by (simp add: add.commute)
  have unn: "unat (word_of_nat ?n :: u32) = ?n" using small by (intro unat_of_nat_u32) simp
  have sum: "?off + word_of_nat ?n = word_of_nat (length (pre @ wire_message (f, p)))" by simp
  have usum: "unat (word_of_nat (length (pre @ wire_message (f, p))) :: u32) = length pre + ?n"
    using small by (subst unat_of_nat_u32) auto
  have b: "unwrap_message on_frame (wire_message (f, p) @ ?tail @ rest) (word_of_nat ?n) c = Inr (False, g f c)"
  proof (rule unwrap_message_wire)
    show "0 < length f" using Cons.prems(1) [of f p] m by simp
    show "on_frame (f @ r) (length f) c = Inr (g f c)" for r
      using Cons.prems(2) [of f p c r] Cons.prems(4) m by simp
  qed (use small in simp)
  have ih: "rndis_walk (unwrap_message on_frame) k ((pre @ wire_message (f, p)) @ ?tail @ rest)
      (word_of_nat (length (pre @ wire_message (f, p)) + length ?tail))
      (word_of_nat (length (pre @ wire_message (f, p)))) (g f c) = Inr (False, fold g (map fst ms) (g f c))"
  proof (rule Cons.IH)
    show "0 < length f'" if "(f', p') \<in> set ms" for f' p'
      using Cons.prems(1) [of f' p'] that by simp
    show "on_frame (f' @ r) (length f') c' = Inr (g f' c')" if "(f', p') \<in> set ms" "Q c'" for f' p' r c'
      using Cons.prems(2) [of f' p' c' r] that by simp
    show "Q (g f' c')" if "(f', p') \<in> set ms" "Q c'" for f' p' c'
      using Cons.prems(3) [of f' p' c'] that by simp
    show "Q (g f c)" using Cons.prems(3) [of f p c] Cons.prems(4) m by simp
  qed (use small k(2) in auto)
  have "rndis_walk (unwrap_message on_frame) (Suc k) ?buf ?len ?off c =
      Inr (False, fold g (map fst ms) (g f c))"
    using ih b sum usum unn small
    by (simp add: u32_le_iff off8 len mlen word_less_nat_alt unat_eq_0 [symmetric] del: of_nat_add)
  then show ?case using m k(1) by (simp add: add.assoc)
qed

lemma unwrap_data_wire:
  assumes "\<And>f p. (f, p) \<in> set ms \<Longrightarrow> 0 < length f"
    and "\<And>f p rest c. (f, p) \<in> set ms \<Longrightarrow> Q c \<Longrightarrow> on_frame (f @ rest) (length f) c = Inr (g f c)"
    and "\<And>f p c. (f, p) \<in> set ms \<Longrightarrow> Q c \<Longrightarrow> Q (g f c)" "Q ctx"
    and "length (concat (map wire_message ms)) + 8 < 2 ^ 32" "length ms < fuel"
  shows "rndis_drv_unwrap_data fuel (concat (map wire_message ms) @ rest)
      (length (concat (map wire_message ms))) on_frame ctx = Inr (0, fold g (map fst ms) ctx)"
  using walk_wire [of ms Q on_frame g ctx "[]" fuel rest] assms
  by (simp add: rndis_drv_unwrap_data_def)

section \<open>The control channel\<close>

text \<open>
  What the driver needs of the channel: both operations are defined on buffers that are as large as
  the length given, and receiving keeps the size of the buffer and returns at most the limit.
\<close>

locale control_channel =
  fixes send :: "buffer \<Rightarrow> nat \<Rightarrow> 'd \<Rightarrow> (int \<times> 'd) run"
    and recv :: "buffer \<Rightarrow> nat \<Rightarrow> 'd \<Rightarrow> (int \<times> buffer \<times> 'd) run"
  assumes send_runs: "len \<le> length buf \<Longrightarrow> runs_to (send buf len d) (\<lambda>_. True)"
    and recv_runs: "lim \<le> length buf \<Longrightarrow>
      runs_to (recv buf lim d) (\<lambda>(r, buf', d'). length buf' = length buf \<and> r \<le> int lim)"
begin

lemma exchange_runs:
  assumes "length buf = RNDIS_BUF_SIZE" "len \<le> RNDIS_BUF_SIZE"
  shows "runs_to (ctrl_exchange send recv buf len d) (\<lambda>(r, buf', d').
    length buf' = RNDIS_BUF_SIZE \<and> (r = -1 \<or> 0 \<le> r \<and> nat r \<le> length buf'))"
proof -
  obtain r d1 where s: "send buf len d = Inr (r, d1)"
    using send_runs [of len buf d] assms by (auto elim!: runs_toE)
  obtain r2 buf2 d2 where "recv buf RNDIS_BUF_SIZE d1 = Inr (r2, buf2, d2)"
      "length buf2 = RNDIS_BUF_SIZE" "r2 \<le> int RNDIS_BUF_SIZE"
    using recv_runs [of RNDIS_BUF_SIZE buf d1] assms by (auto elim!: runs_toE)
  with s assms show ?thesis by (simp add: ctrl_exchange_def nat_le_iff)
qed

lemma set_filter_runs:
  assumes "length buf = RNDIS_BUF_SIZE"
  shows "runs_to (init_set_filter send recv buf st d) (\<lambda>(r, st', d').
    mac_addr st' = mac_addr st \<and> (r = -1 \<or> r = 0 \<and> link_up st' = 1 \<and> request_id st' = request_id st + 1))"
proof -
  obtain r buf1 where b: "rndis_build_set buf RNDIS_BUF_SIZE OID_GEN_CURRENT_PACKET_FILTER
      (le32 packet_filter) 4 st = Inr (r, buf1, st\<lparr>request_id := request_id st + 1\<rparr>)"
      "r = 32" "length buf1 = RNDIS_BUF_SIZE"
    using build_set_runs [of 4 RNDIS_BUF_SIZE buf "le32 packet_filter"
      OID_GEN_CURRENT_PACKET_FILTER st] assms
    by (auto elim!: runs_toE)
  obtain q buf2 d1 where x: "ctrl_exchange send recv buf1 32 d = Inr (q, buf2, d1)"
      "length buf2 = RNDIS_BUF_SIZE" "q = -1 \<or> 0 \<le> q \<and> nat q \<le> length buf2"
    using exchange_runs [of buf1 32 d] b by (auto elim!: runs_toE)
  have "runs_to (rndis_parse_set_cmplt buf2 (nat q)) (\<lambda>_. True)" if "0 \<le> q"
    using x that by (auto simp: rndis_parse_set_cmplt_def run_simps Let_def)
  with b x show ?thesis by (auto simp: init_set_filter_def run_simps elim!: runs_to_mono)
qed

lemma query_mac_runs:
  assumes "length buf = RNDIS_BUF_SIZE" "wf_rndis_state st"
  shows "runs_to (init_query_mac send recv buf st d) (\<lambda>(r, st', d'). wf_rndis_state st' \<and>
    (r = -1 \<or> r = 0 \<and> link_up st' = 1 \<and> request_id st' = request_id st + 2))"
proof -
  let ?st = "st\<lparr>request_id := request_id st + 1\<rparr>"
  obtain buf1 where b: "rndis_build_query buf RNDIS_BUF_SIZE OID_802_3_PERMANENT_ADDRESS st =
      Inr (28, buf1, ?st)" "length buf1 = RNDIS_BUF_SIZE"
    using build_query_runs [of RNDIS_BUF_SIZE buf OID_802_3_PERMANENT_ADDRESS st] assms(1) by (auto elim!: runs_toE)
  obtain q buf2 d1 where x: "ctrl_exchange send recv buf1 28 d = Inr (q, buf2, d1)"
      "length buf2 = RNDIS_BUF_SIZE" "q = -1 \<or> 0 \<le> q \<and> nat q \<le> length buf2"
    using exchange_runs [of buf1 28 d] b by (auto elim!: runs_toE)
  show ?thesis
  proof (cases "q = -1")
    case True
    with b x assms(2) show ?thesis by (simp add: init_query_mac_def wf_rndis_state_def)
  next
    case False
    then have "runs_to (rndis_parse_query_cmplt buf2 (nat q) (Some (mac_addr ?st, 6))) (\<lambda>(r, out).
        case out of None \<Rightarrow> False | Some (mac, n) \<Rightarrow> length mac = 6)"
      using x(3) assms(2) by (intro runs_to_mono [OF parse_query_cmplt_in_bounds])
        (auto simp: wf_rndis_state_def split: option.splits)
    then obtain p mac n where p: "rndis_parse_query_cmplt buf2 (nat q) (Some (mac_addr ?st, 6)) =
        Inr (p, Some (mac, n))" "length mac = 6"
      by (auto elim!: runs_toE split: option.splits)
    let ?st2 = "if p < 0 then ?st\<lparr>mac_addr := fallback_mac\<rparr> else ?st\<lparr>mac_addr := mac\<rparr>"
    have "runs_to (init_set_filter send recv buf2 ?st2 d1) (\<lambda>(r, st', d'). wf_rndis_state st' \<and>
        (r = -1 \<or> r = 0 \<and> link_up st' = 1 \<and> request_id st' = request_id st + 2))"
      using p(2) by (intro runs_to_mono [OF set_filter_runs [OF x(2)]])
        (auto simp: wf_rndis_state_def fallback_mac_def)
    then show ?thesis using b(1) x(1,3) p(1) False by (cases "p < 0") (simp_all add: init_query_mac_def)
  qed
qed

lemma dialogue_runs:
  assumes "length buf = RNDIS_BUF_SIZE" "wf_rndis_state st"
  shows "runs_to (init_dialogue send recv buf st d) (\<lambda>(r, st', d'). wf_rndis_state st' \<and>
    (r = -1 \<or> r = 0 \<and> link_up st' = 1 \<and> request_id st' = request_id st + 3))"
proof -
  let ?st = "st\<lparr>request_id := request_id st + 1\<rparr>"
  obtain buf1 where b: "rndis_build_init buf RNDIS_BUF_SIZE st = Inr (24, buf1, ?st)"
      "length buf1 = RNDIS_BUF_SIZE"
    using build_init_runs [of RNDIS_BUF_SIZE buf st] assms(1) by (auto elim!: runs_toE)
  obtain q buf2 d1 where x: "ctrl_exchange send recv buf1 24 d = Inr (q, buf2, d1)"
      "length buf2 = RNDIS_BUF_SIZE" "q = -1 \<or> 0 \<le> q \<and> nat q \<le> length buf2"
    using exchange_runs [of buf1 24 d] b by (auto elim!: runs_toE)
  show ?thesis
  proof (cases "q = -1")
    case True
    with b x assms(2) show ?thesis by (simp add: init_dialogue_def wf_rndis_state_def)
  next
    case False
    then have "runs_to (rndis_parse_init_cmplt buf2 (nat q) ?st) (\<lambda>(p, st2).
        mac_addr st2 = mac_addr st \<and> request_id st2 = request_id st + 1)"
      using x(2,3) by (auto simp: rndis_parse_init_cmplt_def run_simps Let_def)
    then obtain p st2 where p: "rndis_parse_init_cmplt buf2 (nat q) ?st = Inr (p, st2)"
        "mac_addr st2 = mac_addr st" "request_id st2 = request_id st + 1"
      by (auto elim!: runs_toE)
    then have "wf_rndis_state st2" using assms(2) by (simp add: wf_rndis_state_def)
    then have "runs_to (init_query_mac send recv buf2 st2 d1) (\<lambda>(r, st', d'). wf_rndis_state st' \<and>
        (r = -1 \<or> r = 0 \<and> link_up st' = 1 \<and> request_id st' = request_id st + 3))"
      using p by (intro runs_to_mono [OF query_mac_runs [OF x(2)]]) auto
    with \<open>wf_rndis_state st2\<close> show ?thesis
      using b(1) x(1,3) p(1) False by (simp add: init_dialogue_def)
  qed
qed

lemma keepalive_runs:
  assumes "length buf = RNDIS_BUF_SIZE"
  shows "runs_to (keepalive_over send recv buf st d) (\<lambda>(r, st', d').
    r = 0 \<and> st' = st\<lparr>request_id := request_id st + 1\<rparr>)"
proof -
  obtain buf1 where b: "rndis_build_keepalive buf RNDIS_BUF_SIZE st =
      Inr (12, buf1, st\<lparr>request_id := request_id st + 1\<rparr>)" "length buf1 = RNDIS_BUF_SIZE"
    using build_keepalive_runs [of RNDIS_BUF_SIZE buf st] assms(1) by (auto elim!: runs_toE)
  obtain r d1 where s: "send buf1 12 d = Inr (r, d1)"
    using send_runs [of 12 buf1 d] b(2) by (auto elim!: runs_toE)
  obtain x where "recv buf1 RNDIS_BUF_SIZE d1 = Inr x"
    using recv_runs [of RNDIS_BUF_SIZE buf1 d1] b(2) by (auto elim!: runs_toE)
  with b(1) s show ?thesis by (cases x) (simp add: keepalive_over_def)
qed

end

interpretation ctrl: control_channel "usb_send_ctrl lib usb" "usb_recv_ctrl lib usb" for lib usb
proof
  show "runs_to (usb_send_ctrl lib usb buf len d) (\<lambda>_. True)" if "len \<le> length buf" for buf len d
    using usb_send_ctrl_runs [OF that] by (rule runs_to_mono) simp
  show "runs_to (usb_recv_ctrl lib usb buf lim d)
      (\<lambda>(r, buf', d'). length buf' = length buf \<and> r \<le> int lim)" if "lim \<le> length buf" for buf lim d
    using usb_recv_ctrl_runs [OF that] by (rule runs_to_mono) auto
qed

section \<open>The wrap-around of the offset\<close>

text \<open>
  The check \<open>offset + msg_len > usb_len\<close> is computed in \<open>uint32_t\<close>.  A 24-byte transfer whose second
  header says \<open>0xFFFFFFF0\<close> at offset 16 passes it and sends the loop back to offset 0, so the
  loop never ends, with any fuel and any callback.
\<close>

definition hang_transfer :: buffer where
  "hang_transfer = enc_u32s [0, 16, 0, 0, 0, 0xFFFFFFF0]"

lemma hang_walk:
  assumes "36 \<le> length rest"
  shows "rndis_walk (unwrap_message on_frame) fuel (hang_transfer @ rest) 24 0 c = Inl No_Fuel \<and>
    rndis_walk (unwrap_message on_frame) fuel (hang_transfer @ rest) 24 16 c = Inl No_Fuel"
proof (induction fuel)
  case (Suc fuel)
  let ?buf = "hang_transfer @ rest"
  have len: "u32_at ?buf 4 = 16" "u32_at ?buf 20 = 0xFFFFFFF0" "u32_at (drop 16 ?buf) 0 = 0"
    by (simp_all add: hang_transfer_def enc_u32s_Cons)
  have size: "60 \<le> length ?buf" using assms by (simp add: hang_transfer_def)
  have first: "unwrap_message on_frame ?buf 16 c = Inr (False, c)"
    by (simp add: unwrap_message_def rndis_parse_data_packet_def)
  have second: "unwrap_message on_frame (drop 16 ?buf) 0xFFFFFFF0 c = Inr (False, c)"
    using size len(3)
    by (simp add: unwrap_message_def parse_data_packet_eq del: drop_append length_append)
  show ?case
    using Suc.IH len(1,2) first second size by (simp del: drop_append length_append add: u32_modulus)
qed simp

lemma unwrap_data_hangs:
  assumes "36 \<le> length rest"
  shows "rndis_drv_unwrap_data fuel (hang_transfer @ rest) 24 on_frame c = Inl No_Fuel"
  using hang_walk [OF assms, of on_frame fuel c] by (simp add: rndis_drv_unwrap_data_def)

text \<open>
  The same wrap-around lets \<open>rndis_parse_data_packet\<close> work with a length of almost 4 GB, so that a
  frame can lie outside the 32768-byte receive buffer: reading it is out of bounds.
\<close>

definition overrun_transfer :: buffer where
  "overrun_transfer = enc_u32s ([0, 16, 0, 0] @ [1, 0xFFFFFFF8, 40000, 100, 0, 0, 0, 0, 0, 0, 0])"

definition collect_frame :: "buffer \<Rightarrow> nat \<Rightarrow> buffer list \<Rightarrow> buffer list run" where
  "collect_frame frame n acc = bindR (rd_bytes frame 0 n) (\<lambda>bs. Inr (acc @ [bs]))"

lemma unwrap_data_overruns:
  assumes "length (overrun_transfer @ rest) = RNDIS_BUF_SIZE"
  shows "rndis_drv_unwrap_data 3 (overrun_transfer @ rest) 60 collect_frame [] = Inl Oob_Read"
proof -
  let ?buf = "overrun_transfer @ rest"
  have words: "u32_at ?buf 4 = 16" "u32_at ?buf 20 = 0xFFFFFFF8" "u32_at (drop 16 ?buf) 0 = 1"
      "u32_at (drop 16 ?buf) 8 = 40000" "u32_at (drop 16 ?buf) 12 = 100"
    by (simp_all add: overrun_transfer_def enc_u32s_Cons)
  have first: "unwrap_message collect_frame ?buf 16 [] = Inr (False, [])"
    by (simp add: unwrap_message_def rndis_parse_data_packet_def)
  have size: "length ?buf = 32768" using assms by simp
  have parse: "rndis_parse_data_packet (drop 16 ?buf) (unat (0xFFFFFFF8 :: u32)) = Inr (0, Some (40008, 100))"
    using words(3-5) by (subst parse_data_packet_eq) (simp_all add: size del: drop_append length_append)
  have "unwrap_message collect_frame (drop 16 ?buf) 0xFFFFFFF8 [] = Inl Oob_Read"
    unfolding unwrap_message_def parse
    by (simp add: collect_frame_def rd_bytes_def size del: drop_append length_append)
  with words(1,2) first show ?thesis
    by (simp add: rndis_drv_unwrap_data_def numeral_3_eq_3 size del: drop_append length_append)
qed

section \<open>Properties\<close>

text \<open>
  C8: Batched receiving loses nothing: a transfer that is a sequence of data messages, each with a
  non-empty frame and any alignment bytes behind it, makes \<open>rndis_drv_unwrap_data\<close> call the
  callback once for every frame, in the order of the transfer, and return 0.
\<close>

theorem unwrap_delivers_in_order:
  assumes "\<And>f p. (f, p) \<in> set ms \<Longrightarrow> 0 < length f"
    and "\<And>f p rest c. (f, p) \<in> set ms \<Longrightarrow> on_frame (f @ rest) (length f) c = Inr (g f c)"
    and "length (concat (map wire_message ms)) + 8 < 2 ^ 32" "length ms < fuel"
  shows "rndis_drv_unwrap_data fuel (concat (map wire_message ms) @ rest)
      (length (concat (map wire_message ms))) on_frame ctx = Inr (0, fold g (map fst ms) ctx)"
  using assms by (intro unwrap_data_wire [where Q = "\<lambda>_. True"]) auto

lemma unwrap_delivers_in_order_witness:
  "rndis_drv_unwrap_data 3 (concat (map wire_message [([1, 2, 3], [0]), ([9], [])]) @ [7, 7])
     (length (concat (map wire_message [([1, 2, 3], [0]), ([9], [])]))) collect_frame [] =
   Inr (0, [[1, 2, 3], [9]])"
  using unwrap_delivers_in_order
    [of "[([1, 2, 3], [0]), ([9], [])]" collect_frame "\<lambda>f acc. acc @ [f]" 3 "[7, 7]" "[]"]
  by (force simp: collect_frame_def)


lemma collect_frame_runs:
  "n \<le> length frame \<Longrightarrow> runs_to (collect_frame frame n acc) (\<lambda>acc'. acc' = acc @ [take n frame])"
  by (simp add: collect_frame_def)



text \<open>A scripted device: it accepts every request and answers the next prepared response.\<close>

definition scripted_lib :: "buffer list libusb" where
  "scripted_lib = \<lparr>lib_control_out = (\<lambda>_ _ _ _ bs d. (Inr (length bs), d)),
     lib_control_in = (\<lambda>_ _ _ _ _ d. case d of [] \<Rightarrow> (Inl ERROR_TIMEOUT, []) | b # bs \<Rightarrow> (Inr b, bs)),
     lib_bulk_out = (\<lambda>_ bs _ d. ((None, length bs), d)),
     lib_bulk_in = (\<lambda>_ _ _ d. case d of [] \<Rightarrow> ((Some ERROR_TIMEOUT, []), [])
                            | b # bs \<Rightarrow> ((None, b), bs))\<rparr>"


text \<open>
  The keepalive never disturbs the session: for any device behaviour, also where both transfers
  fail, \<open>rndis_drv_keepalive\<close> has a defined result, returns 0 and changes nothing of the driver
  state but the request identifier, which grows by one.
\<close>

theorem rndis_keepalive_safe:
  assumes "length buf = RNDIS_BUF_SIZE"
  shows "runs_to (rndis_drv_keepalive lib usb buf st d) (\<lambda>(r, st', d').
    r = 0 \<and> st' = st\<lparr>request_id := request_id st + 1\<rparr>)"
  unfolding rndis_drv_keepalive_def using assms by (rule ctrl.keepalive_runs)

lemma rndis_keepalive_safe_witness:
  "runs_to (rndis_drv_keepalive scripted_lib zero_usb_device (replicate 32768 0) zero_rndis_state [])
     (\<lambda>(r, st', d'). r = 0 \<and> request_id st' = 1)"
  using rndis_keepalive_safe [of "replicate 32768 0" scripted_lib zero_usb_device zero_rndis_state "[]"]
  by (auto simp: zero_rndis_state_def elim!: runs_to_mono)

text \<open>
  C35: The driver's interface filters and the discovery agree: an interface is taken for RNDIS by
  \<open>is_rndis_interface\<close> exactly when its class triple is one of the filters the driver publishes.
\<close>

theorem filters_match_discovery:
  "is_rndis_interface iface \<longleftrightarrow>
     \<lparr>f_bclass = bInterfaceClass iface, f_subclass = bInterfaceSubClass iface,
      f_protocol = bInterfaceProtocol iface\<rparr> \<in> set (rndis_drv_get_usb_filters 4)"
  by (auto simp: is_rndis_interface_def rndis_drv_get_usb_filters_def)

text \<open>
  A driver that \<open>proto_rndis_create\<close> returns passes \<open>proto_driver_validate\<close>, so that a session
  only fails at this point for lack of memory.
\<close>

theorem created_driver_valid:
  "proto_driver_validate (proto_rndis_create drv_mem state_mem lib usb) =
     (if drv_mem \<and> state_mem then 0 else -1)"
  by (simp add: proto_driver_validate_def proto_rndis_create_def)

section \<open>A zero-length answer to the MAC query\<close>

text \<open>
  An answer that reports success and no data is accepted, and the address stays what \<open>calloc\<close> left
  there, \<open>00:00:00:00:00:00\<close>: the fallback address is used only where the query is refused.
\<close>

lemma empty_mac_answer_gives_zero_mac:
  "runs_to (rndis_drv_init scripted_lib zero_usb_device (replicate 32768 0) zero_rndis_state
      [enc_u32s [0x80000002, 52, 1, 0, 1, 0, 1, 0, 1, 16384, 0, 0, 0],
       enc_u32s [0x80000004, 24, 2, 0, 0, 0],
       enc_u32s [0x80000005, 16, 3, 0]])
     (\<lambda>(r, st', d'). r = 0 \<and> mac_addr st' = replicate 6 0)"
  by (simp add: rndis_drv_init_def init_dialogue_def init_query_mac_def init_set_filter_def
      ctrl_exchange_def usb_send_ctrl_def usb_recv_ctrl_def scripted_lib_def zero_rndis_state_def
      rndis_build_init_def rndis_build_query_def rndis_build_set_def rndis_parse_init_cmplt_def
      rndis_parse_query_cmplt_def rndis_parse_set_cmplt_def dec_init_cmplt_def dec_query_cmplt_def
      dec_set_cmplt_def enc_u32s_Cons Let_def zero_usb_device_def)

end
