(* ===== verification/Dhcp.thy ===== *)
theory Dhcp
  imports Proto_Rndis
begin

text \<open>
  The packets of \<^verbatim>\<open>src/dhcp.c\<close>: parsing the options of an answer (\<open>dhcp_parse_options\<close> and the loop
  that looks for the message type) and building the DISCOVER and REQUEST packets with their IP
  checksum.  The dialogue is in theory \<open>Dhcp_Client\<close>.
\<close>

section \<open>Data\<close>

text \<open>\<open>struct in_addr\<close> values that the options fill in.\<close>

record dhcp_opts =
  o_gateway :: u32
  o_netmask :: u32
  o_dns1 :: u32
  o_dns2 :: u32

definition zero_opts :: dhcp_opts where
  "zero_opts = \<lparr>o_gateway = 0, o_netmask = 0, o_dns1 = 0, o_dns2 = 0\<rparr>"

record dhcp_lease =
  l_ip :: string
  l_gateway :: string
  l_netmask :: string
  l_dns1 :: string
  l_dns2 :: string

text \<open>Offsets in \<open>dhcp_packet_t\<close>; its flexible array \<open>options\<close> starts at its size, 240.\<close>

definition sizeof_dhcp_packet :: nat where [simp]: "sizeof_dhcp_packet = 240"

section \<open>Options\<close>

definition apply_option :: "buffer \<Rightarrow> nat \<Rightarrow> byte \<Rightarrow> nat \<Rightarrow> dhcp_opts \<Rightarrow> dhcp_opts run" where
  "apply_option opts i opt olen st =
     (if opt = 1 then
        (if olen \<ge> 4 then bindR (rd_u32 opts i) (\<lambda>v. Inr (st\<lparr>o_netmask := v\<rparr>)) else Inr st)
      else if opt = 3 then
        (if olen \<ge> 4 then bindR (rd_u32 opts i) (\<lambda>v. Inr (st\<lparr>o_gateway := v\<rparr>)) else Inr st)
      else if opt = 6 then
        bindR (if olen \<ge> 4 then bindR (rd_u32 opts i) (\<lambda>v. Inr (st\<lparr>o_dns1 := v\<rparr>)) else Inr st) (\<lambda>st1.
          if olen \<ge> 8 then bindR (rd_u32 opts (i + 4)) (\<lambda>v. Inr (st1\<lparr>o_dns2 := v\<rparr>)) else Inr st1)
      else Inr st)"

function parse_options_from :: "buffer \<Rightarrow> nat \<Rightarrow> nat \<Rightarrow> dhcp_opts \<Rightarrow> dhcp_opts run" where
  "parse_options_from opts len i st =
     (if i \<ge> len then Inr st
      else bindR (rd_u8 opts i) (\<lambda>opt.
        if opt = 0xFF then Inr st
        else if opt = 0x00 then parse_options_from opts len (i + 1) st
        else if i + 1 \<ge> len then Inr st
        else bindR (rd_u8 opts (i + 1)) (\<lambda>olen.
          if i + 2 + unat olen > len then Inr st
          else bindR (apply_option opts (i + 2) opt (unat olen) st) (\<lambda>st'.
            parse_options_from opts len (i + 2 + unat olen) st'))))"
  by pat_completeness auto
termination
  by (relation "measure (\<lambda>(opts, len, i, st). len - i)") auto

declare parse_options_from.simps [simp del]

definition dhcp_parse_options :: "buffer \<Rightarrow> nat \<Rightarrow> dhcp_opts \<Rightarrow> dhcp_opts run" where
  "dhcp_parse_options opts len st = parse_options_from opts len 0 st"

text \<open>
  The loop over the options that looks for the message type (option 53) and, for an offer, the
  server identifier (option 54).  It does not check that the option's data lie inside \<open>opts_len\<close>.
\<close>

function scan_options :: "bool \<Rightarrow> buffer \<Rightarrow> nat \<Rightarrow> nat \<Rightarrow> byte \<times> u32 \<Rightarrow> (byte \<times> u32) run" where
  "scan_options with_server opts opts_len i (msg_type, server) =
     (if i \<ge> opts_len then Inr (msg_type, server)
      else bindR (rd_u8 opts i) (\<lambda>opt.
        if opt = 0xFF then Inr (msg_type, server)
        else if opt = 0x00 then scan_options with_server opts opts_len (i + 1) (msg_type, server)
        else if i + 1 \<ge> opts_len then Inr (msg_type, server)
        else bindR (rd_u8 opts (i + 1)) (\<lambda>olen.
          bindR (if opt = 53 \<and> olen \<ge> 1 then rd_u8 opts (i + 2) else Inr msg_type) (\<lambda>msg_type'.
          bindR (if with_server \<and> opt = 54 \<and> olen \<ge> 4 then rd_u32 opts (i + 2) else Inr server)
            (\<lambda>server'.
              scan_options with_server opts opts_len (i + 2 + unat olen) (msg_type', server'))))))"
  by pat_completeness auto
termination
  by (relation "measure (\<lambda>(ws, opts, len, i, st). len - i)") auto

declare scan_options.simps [simp del]

section \<open>Building packets\<close>

lemma carry_low: "unat (s AND 0xFFFF :: u32) = unat s mod 65536"
proof -
  have "s AND 0xFFFF = take_bit 16 s" by (simp add: take_bit_eq_mask mask_eq_exp_minus_1)
  then have "unat (s AND 0xFFFF) = take_bit 16 (unat s)" by (simp only: unsigned_take_bit_eq)
  then show ?thesis by (simp add: take_bit_eq_mod)
qed

lemma carry_high: "unat (drop_bit 16 s :: u32) = unat s div 65536"
proof -
  have "unat (drop_bit 16 s) = drop_bit 16 (unat s)" by (rule unat_drop_bit_eq)
  also have "\<dots> = unat s div 65536" by (simp add: drop_bit_eq_div)
  finally show ?thesis .
qed

lemma carry_sum:
  "unat ((s AND 0xFFFF) + drop_bit 16 s :: u32) = unat s mod 65536 + unat s div 65536"
proof -
  have "unat s div 65536 < 65536" using unat_u32_less [of s] by linarith
  moreover have "unat s mod 65536 < 65536" by simp
  ultimately show ?thesis by (simp add: u32_add_nowrap carry_low carry_high)
qed

lemma carry_less: "drop_bit 16 (s :: u32) \<noteq> 0 \<Longrightarrow> unat s mod 65536 + unat s div 65536 < unat s"
proof -
  assume "drop_bit 16 s \<noteq> 0"
  then have "0 < unat (drop_bit 16 s)" by (simp only: unat_gt_0 not_False_eq_True)
  then have "0 < unat s div 65536" by (simp only: carry_high)
  then show ?thesis using div_mult_mod_eq [of "unat s" 65536] by linarith
qed

text \<open>The loop that folds the carries of the one's complement sum back in.\<close>

function fold_carries :: "u32 \<Rightarrow> u32" where
  "fold_carries s =
     (if drop_bit 16 s \<noteq> 0 then fold_carries ((s AND 0xFFFF) + drop_bit 16 s) else s)"
  by pat_completeness auto
termination
  by (relation "measure unat") (simp_all only: in_measure carry_sum wf_measure carry_less not_False_eq_True)

declare fold_carries.simps [simp del]

definition sum_words :: "buffer \<Rightarrow> nat \<Rightarrow> u32" where
  "sum_words buf p = fold (\<lambda>i s. s + ucast (be16_at buf (p + 2 * i))) [0..<10] 0"

text \<open>
  The common part of both builders.  \<open>options\<close> are the option bytes the code writes through \<open>opts\<close>;
  the stores are in the order of the code, the option bytes after the fixed fields.
\<close>

definition dhcp_stores :: "nat \<Rightarrow> buffer \<Rightarrow> u32 \<Rightarrow> buffer \<Rightarrow> (nat \<times> buffer) list" where
  "dhcp_stores buf_size mac xid options =
     [(0, replicate buf_size 0),
      (0, replicate 6 0xFF), (6, mac), (12, be16 0x0800),
      (14, [0x45]), (22, [64]), (23, [17]), (26, replicate 4 0), (30, replicate 4 0xFF),
      (34, be16 DHCP_CLIENT_PORT), (36, be16 DHCP_SERVER_PORT),
      (42, [1, 1, 6]), (46, be32 xid), (52, be16 0x8000), (70, mac), (278, be32 DHCP_MAGIC_COOKIE),
      (282, options)]"

text \<open>\<open>dhcp_len\<close>: the bytes written from the start of the DHCP packet, padded to 300 in all.\<close>

definition dhcp_payload_len :: "buffer \<Rightarrow> nat" where
  "dhcp_payload_len options =
     (let dhcp_len = sizeof_dhcp_packet + length options
      in if dhcp_len < 300 - sizeof_eth_hdr - 20 - 8 then 300 - sizeof_eth_hdr - 20 - 8 else dhcp_len)"

definition dhcp_build :: "buffer \<Rightarrow> nat \<Rightarrow> buffer \<Rightarrow> u32 \<Rightarrow> buffer \<Rightarrow> (int \<times> buffer) run" where
  "dhcp_build buf buf_size mac xid options =
     (if buf_size < 300 then Inr (-1, buf)
      else bindR (rd_bytes mac 0 6) (\<lambda>m.
        let dhcp_len = dhcp_payload_len options
        in bindR (wr_all buf (dhcp_stores buf_size m xid options @
                  [(38, be16 (word_of_nat (8 + dhcp_len))), (40, [0, 0]),
                   (16, be16 (word_of_nat (20 + 8 + dhcp_len))), (24, [0, 0])])) (\<lambda>buf1.
           let s = fold_carries (sum_words buf1 14)
           in bindR (wr_bytes buf1 24 (be16 (NOT (ucast s)))) (\<lambda>buf2.
              Inr (c_int (sizeof_eth_hdr + 20 + 8 + dhcp_len), buf2)))))"

definition discover_options :: buffer where
  "discover_options = [53, 1, 1, 55, 3, 1, 3, 6, 0xFF]"

definition dhcp_build_discover :: "buffer \<Rightarrow> nat \<Rightarrow> buffer \<Rightarrow> u32 \<Rightarrow> (int \<times> buffer) run" where
  "dhcp_build_discover buf buf_size mac xid = dhcp_build buf buf_size mac xid discover_options"

definition request_options :: "u32 \<Rightarrow> u32 \<Rightarrow> buffer" where
  "request_options offered_ip server_ip =
     [53, 1, 3] @ [50, 4] @ le32 offered_ip @ [54, 4] @ le32 server_ip @ [55, 3, 1, 3, 6] @ [0xFF]"

definition dhcp_build_request ::
    "buffer \<Rightarrow> nat \<Rightarrow> buffer \<Rightarrow> u32 \<Rightarrow> u32 \<Rightarrow> u32 \<Rightarrow> (int \<times> buffer) run" where
  "dhcp_build_request buf buf_size mac xid offered_ip server_ip =
     dhcp_build buf buf_size mac xid (request_options offered_ip server_ip)"

section \<open>Options: bounds and round trip\<close>

lemma apply_option_runs:
  "i + olen \<le> length opts \<Longrightarrow> runs_to (apply_option opts i opt olen st) (\<lambda>_. True)"
  by (auto simp: apply_option_def run_simps)

lemma parse_options_from_runs:
  "len \<le> length opts \<Longrightarrow> runs_to (parse_options_from opts len i st) (\<lambda>_. True)"
proof (induction opts len i st rule: parse_options_from.induct)
  case (1 opts len i st)
  show ?case
  proof (cases "i + 1 < len \<and> opts ! i \<noteq> 0xFF \<and> opts ! i \<noteq> 0 \<and> i + 2 + unat (opts ! (i + 1)) \<le> len")
    case True
    then obtain st' where "apply_option opts (i + 2) (opts ! i) (unat (opts ! (i + 1))) st = Inr st'"
      using 1(3) apply_option_runs [of "i + 2" "unat (opts ! (i + 1))" opts "opts ! i" st]
      by (auto elim!: runs_toE)
    then show ?thesis
      using True 1 by (subst parse_options_from.simps) (simp add: rd_u8_def)
  next
    case False
    then show ?thesis
      using 1 by (subst parse_options_from.simps) (auto simp: rd_u8_def run_simps)
  qed
qed

text \<open>Options as a server writes them: code, length, value.\<close>

type_synonym tlv = "byte \<times> buffer"

definition enc_tlv :: "tlv \<Rightarrow> buffer" where
  "enc_tlv = (\<lambda>(c, v). c # word_of_nat (length v) # v)"

definition wf_tlv :: "tlv \<Rightarrow> bool" where
  "wf_tlv = (\<lambda>(c, v). c \<noteq> 0 \<and> c \<noteq> 0xFF \<and> length v < 256)"

text \<open>What an option means: the later option wins, and a short value is ignored.\<close>

definition tlv_meaning :: "tlv \<Rightarrow> dhcp_opts \<Rightarrow> dhcp_opts" where
  "tlv_meaning = (\<lambda>(c, v) st.
     if length v < 4 then st
     else if c = 1 then st\<lparr>o_netmask := u32_at v 0\<rparr>
     else if c = 3 then st\<lparr>o_gateway := u32_at v 0\<rparr>
     else if c = 6 then
       (if length v < 8 then st\<lparr>o_dns1 := u32_at v 0\<rparr>
        else st\<lparr>o_dns1 := u32_at v 0, o_dns2 := u32_at v 4\<rparr>)
     else st)"

lemma u32_at_prefix: "k + 4 \<le> length v \<Longrightarrow> u32_at (v @ r) k = u32_at v k"
  by (simp add: u32_at_def nth_append)

lemma apply_option_enc:
  "apply_option (pre @ c # l # v @ r) (length pre + 2) c (length v) st = Inr (tlv_meaning (c, v) st)"
  by (auto simp: apply_option_def tlv_meaning_def u32_at_Cons u32_at_prefix)

lemma length_enc_tlv [simp]: "length (enc_tlv (c, v)) = 2 + length v"
  by (simp add: enc_tlv_def)

lemma unat_length_byte: "length v < 256 \<Longrightarrow> unat (word_of_nat (length v) :: byte) = length v"
  by (simp add: unat_of_nat)

lemma parse_enc_tlvs:
  assumes "list_all wf_tlv os" "length pre + length (concat (map enc_tlv os)) < len"
  shows "parse_options_from (pre @ concat (map enc_tlv os) @ 0xFF # r) len (length pre) st =
    Inr (fold tlv_meaning os st)"
  using assms
proof (induction os arbitrary: pre st)
  case Nil
  then show ?case by (subst parse_options_from.simps) (simp add: rd_u8_def)
next
  case (Cons o1 os)
  obtain c v where o1: "o1 = (c, v)" by (cases o1)
  let ?r = "concat (map enc_tlv os) @ 0xFF # r"
  from Cons.prems o1 have v: "c \<noteq> 0" "c \<noteq> 0xFF" "length v < 256"
    and len: "length pre + 2 + length v + length (concat (map enc_tlv os)) < len"
    by (auto simp: wf_tlv_def)
  let ?buf = "pre @ c # word_of_nat (length v) # v @ ?r"
  have ih: "parse_options_from ((pre @ enc_tlv (c, v)) @ ?r) len (length (pre @ enc_tlv (c, v)))
      (tlv_meaning (c, v) st) = Inr (fold tlv_meaning os (tlv_meaning (c, v) st))"
    using Cons.prems len by (intro Cons.IH) auto
  have at: "?buf ! length pre = c" "?buf ! Suc (length pre) = word_of_nat (length v)"
    by (simp_all add: nth_append)
  have "parse_options_from ?buf len (length pre) st =
      parse_options_from ?buf len (length pre + 2 + length v) (tlv_meaning (c, v) st)"
    using v len apply_option_enc [of pre c "word_of_nat (length v)" v ?r st]
    by (subst parse_options_from.simps) (simp add: rd_u8_def at unat_length_byte)
  then show ?case using ih o1 by (simp add: enc_tlv_def add.assoc)
qed

section \<open>The message type of an answer\<close>

lemma scan_options_runs:
  "opts_len + 4 \<le> length opts \<Longrightarrow> runs_to (scan_options ws opts opts_len i r) (\<lambda>_. True)"
proof (induction ws opts opts_len i r rule: scan_options.induct)
  case (1 ws opts opts_len i mt sv)
  show ?case
  proof (cases "i + 1 < opts_len \<and> opts ! i \<noteq> 0xFF \<and> opts ! i \<noteq> 0")
    case True
    then show ?thesis
      using 1 by (subst scan_options.simps) (auto simp: rd_u8_def)
  next
    case False
    then show ?thesis
      using 1 by (subst scan_options.simps) (auto simp: rd_u8_def)
  qed
qed

definition note_option :: "bool \<Rightarrow> tlv \<Rightarrow> byte \<times> u32 \<Rightarrow> byte \<times> u32" where
  "note_option ws = (\<lambda>(c, v) (mt, sv).
     (if c = 53 \<and> v \<noteq> [] then v ! 0 else mt,
      if ws \<and> c = 54 \<and> 4 \<le> length v then u32_at v 0 else sv))"

lemma scan_enc_tlvs:
  assumes "list_all wf_tlv os" "length pre + length (concat (map enc_tlv os)) < len"
  shows "scan_options ws (pre @ concat (map enc_tlv os) @ 0xFF # r) len (length pre) st =
    Inr (fold (note_option ws) os st)"
  using assms
proof (induction os arbitrary: pre st)
  case Nil
  obtain mt sv where "st = (mt, sv)" by (cases st)
  with Nil show ?case by (simp add: scan_options.simps [of ws _ len _ mt sv] rd_u8_def)
next
  case (Cons o1 os)
  obtain c v where o1: "o1 = (c, v)" by (cases o1)
  obtain mt sv where st: "st = (mt, sv)" by (cases st)
  let ?r = "concat (map enc_tlv os) @ 0xFF # r"
  from Cons.prems o1 have v: "c \<noteq> 0" "c \<noteq> 0xFF" "length v < 256"
    and len: "length pre + 2 + length v + length (concat (map enc_tlv os)) < len"
    by (auto simp: wf_tlv_def)
  let ?buf = "pre @ c # word_of_nat (length v) # v @ ?r"
  have ih: "scan_options ws ((pre @ enc_tlv (c, v)) @ ?r) len (length (pre @ enc_tlv (c, v)))
      (note_option ws (c, v) st) = Inr (fold (note_option ws) os (note_option ws (c, v) st))"
    using Cons.prems len by (intro Cons.IH) auto
  have at: "?buf ! length pre = c" "?buf ! Suc (length pre) = word_of_nat (length v)"
    by (simp_all add: nth_append)
  have l1: "(1 :: byte) \<le> word_of_nat (length v) \<longleftrightarrow> v \<noteq> []"
      "(4 :: byte) \<le> word_of_nat (length v) \<longleftrightarrow> 4 \<le> length v"
    using v(3) by (auto simp: word_le_nat_alt unat_length_byte Suc_le_eq)
  have "scan_options ws ?buf len (length pre) st =
      scan_options ws ?buf len (length pre + 2 + length v) (note_option ws (c, v) st)"
    unfolding st using v(1,2) len
    by (subst scan_options.simps)
      (auto simp: rd_u8_def at unat_length_byte [OF v(3)] l1 note_option_def nth_append u32_at_Cons
        u32_at_prefix)
  then show ?case using ih o1 by (simp add: enc_tlv_def add.assoc)
qed

section \<open>The checksum\<close>

lemma fold_carries_spec:
  "unat (fold_carries s) < 65536 \<and> unat (fold_carries s) mod 65535 = unat s mod 65535 \<and>
   (unat (fold_carries s) = 0 \<longleftrightarrow> unat s = 0)"
proof (induction s rule: fold_carries.induct)
  case (1 s)
  show ?case
  proof (cases "drop_bit 16 s = 0")
    case True
    then have "unat s div 65536 = 0" by (simp only: carry_high [symmetric] unat_0)
    then have "unat s < 65536" by (simp add: div_eq_0_iff)
    moreover have "fold_carries s = s" using True by (simp add: fold_carries.simps [of s])
    ultimately show ?thesis by simp
  next
    case False
    let ?n = "unat s mod 65536 + unat s div 65536"
    have "unat s = ?n + 65535 * (unat s div 65536)"
      using div_mult_mod_eq [of "unat s" 65536] by linarith
    then have "?n mod 65535 = unat s mod 65535" by (metis mod_mult_self2)
    moreover have "?n = 0 \<longleftrightarrow> unat s = 0"
      using div_mult_mod_eq [of "unat s" 65536] by linarith
    moreover have "fold_carries s = fold_carries ((s AND 0xFFFF) + drop_bit 16 s)"
      using False by (simp add: fold_carries.simps [of s])
    ultimately show ?thesis using 1 [OF False] by (simp only: carry_sum)
  qed
qed

definition header_words :: "buffer \<Rightarrow> nat \<Rightarrow> nat list" where
  "header_words buf p = map (\<lambda>i. unat (be16_at buf (p + 2 * i))) [0..<10]"

lemma fold_words:
  "unat s + sum_list (map (\<lambda>i. unat (f i :: u16)) is) < 2 ^ 32 \<Longrightarrow>
     unat (fold (\<lambda>i s. s + ucast (f i)) is s :: u32) = unat s + sum_list (map (\<lambda>i. unat (f i)) is)"
proof (induction "is" arbitrary: s)
  case (Cons i "is")
  have "unat (f i) < 2 ^ 32" by (rule less_trans [OF unat_u16_less]) simp
  then have "unat (ucast (f i) :: u32) = unat (f i)" by (simp add: unsigned_ucast_eq take_bit_nat_eq_self)
  moreover from this Cons.prems have "unat (s + ucast (f i)) = unat s + unat (f i)"
    by (subst u32_add_nowrap) auto
  ultimately show ?case using Cons.prems Cons.IH [of "s + ucast (f i)"] by simp
qed simp

lemma header_words_bound: "sum_list (header_words buf p) \<le> 10 * 65535"
  using sum_list_mono [of "[0..<10]" "\<lambda>i. unat (be16_at buf (p + 2 * i))" "\<lambda>_. 65535"]
    unat_u16_less
  by (simp add: header_words_def sum_list_triv less_Suc_eq_le [symmetric])

lemma sum_words_eq: "unat (sum_words buf p) = sum_list (header_words buf p)"
  unfolding sum_words_def header_words_def
  using header_words_bound [of buf p] by (subst fold_words) (auto simp: header_words_def)

lemma unat_not_u16: "unat (NOT (w :: u16)) = 65535 - unat w"
proof -
  have "NOT w = - 1 - w" by (simp add: not_eq_complement)
  moreover have "w \<le> - 1" by simp
  ultimately have "unat (NOT w) = unat (- 1 :: u16) - unat w" by (simp only: unat_sub)
  moreover have "(- 1 :: u16) = 0xFFFF" by simp
  ultimately show ?thesis by simp
qed

text \<open>
  The one's complement sum of a header whose checksum field was zero is all ones after the
  complement of the folded sum is stored in the field.
\<close>

lemma stored_checksum_verifies:
  assumes "sum_list (header_words buf' p) = sum_list (header_words buf p) + unat c"
    and "c = NOT (ucast (fold_carries (sum_words buf p)) :: u16)"
    and "sum_list (header_words buf p) \<noteq> 0"
  shows "fold_carries (sum_words buf' p) = 0xFFFF"
proof -
  let ?f = "unat (fold_carries (sum_words buf p))"
  let ?g = "unat (fold_carries (sum_words buf' p))"
  note f = fold_carries_spec [of "sum_words buf p", unfolded sum_words_eq]
  note g = fold_carries_spec [of "sum_words buf' p", unfolded sum_words_eq]
  have "unat (ucast (fold_carries (sum_words buf p)) :: u16) = ?f"
    using f by (simp add: unsigned_ucast_eq take_bit_nat_eq_self)
  then have c: "unat c = 65535 - ?f"
    unfolding assms(2) by (simp add: unat_not_u16)
  have "(sum_list (header_words buf p) + (65535 - ?f)) mod 65535 = (?f + (65535 - ?f)) mod 65535"
    using f by (metis mod_add_left_eq)
  then have "?g mod 65535 = 0" using f g assms(1) c by simp
  moreover have "?g < 65536" "?g \<noteq> 0" using g assms(1,3) by auto
  then have "\<not> ?g < 65535" using calculation by (metis mod_less)
  with \<open>?g < 65536\<close> have "?g = 65535" by linarith
  then show ?thesis by (simp add: word_unat_eq_iff)
qed

section \<open>The built packets\<close>

text \<open>The stores of \<open>dhcp_build\<close> before the checksum.\<close>

definition packet_stores :: "nat \<Rightarrow> buffer \<Rightarrow> u32 \<Rightarrow> buffer \<Rightarrow> (nat \<times> buffer) list" where
  "packet_stores n mac xid options = dhcp_stores n mac xid options @
     [(38, be16 (word_of_nat (8 + dhcp_payload_len options))), (40, [0, 0]),
      (16, be16 (word_of_nat (28 + dhcp_payload_len options))), (24, [0, 0])]"

lemma packet_stores_run:
  assumes "300 \<le> n" "282 + length options \<le> n" "n \<le> length buf" "length mac = 6"
  obtains buf1 where "wr_all buf (packet_stores n mac xid options) = Inr buf1"
    "length buf1 = length buf"
    "\<forall>k < length buf. buf1 ! k = stored_at (packet_stores n mac xid options) k (buf ! k)"
proof -
  have "runs_to (wr_all buf (packet_stores n mac xid options)) (\<lambda>b. length b = length buf)"
    using assms by (intro wr_all_defined) (auto simp: packet_stores_def dhcp_stores_def)
  with that wr_all_nth show ?thesis by (auto elim!: runs_toE)
qed

lemma be16_nth: "be16 w ! 0 = ucast (drop_bit 8 w)" "be16 w ! Suc 0 = ucast w"
  by (simp_all add: be16_def)

lemma be16_split: "push_bit 8 (ucast (ucast (drop_bit 8 w) :: byte)) OR ucast (ucast w :: byte) = (w :: u16)"
  using be16_at_be16 [of w "[]"] by (simp add: be16_def be16_at_def)

lemma ten: "[0..<10] = [0, 1, 2, 3, 4, 5, 6, 7, 8, 9]"
  by (simp add: upt_rec)

lemma header_words_update:
  assumes "p + 20 \<le> length buf" "be16_at buf (p + 10) = 0"
  shows "sum_list (header_words (take (p + 10) buf @ be16 c @ drop (p + 12) buf) p) =
    sum_list (header_words buf p) + unat c"
proof -
  let ?b = "take (p + 10) buf @ be16 c @ drop (p + 12) buf"
  have same: "be16_at ?b (p + 2 * i) = be16_at buf (p + 2 * i)" if "i < 10" "i \<noteq> 5" for i
  proof (cases "i < 5")
    case True
    with assms show ?thesis by (simp add: be16_at_def nth_append)
  next
    case False
    with that have "6 \<le> i" by simp
    then obtain j where "i = 6 + j" using le_Suc_ex by blast
    with assms show ?thesis by (simp add: be16_at_def nth_append add_ac)
  qed
  have "be16_at ?b (p + 10) = c" using assms by simp
  then show ?thesis using assms same [of 0] same [of 1] same [of 2] same [of 3] same [of 4]
      same [of 6] same [of 7] same [of 8] same [of 9]
    by (simp add: header_words_def ten)
qed

lemma first_word_nonzero: "be16_at buf p \<noteq> 0 \<Longrightarrow> sum_list (header_words buf p) \<noteq> 0"
  by (auto simp: header_words_def ten unat_eq_0)

text \<open>The packet that \<open>dhcp_build\<close> leaves in the buffer, field by field.\<close>

lemma dhcp_build_runs:
  assumes "300 \<le> n" "282 + length options \<le> n" "n \<le> length buf" "length mac = 6"
    and "length options < 1000"
  shows "runs_to (dhcp_build buf n mac xid options) (\<lambda>(r, pkt).
    r = int (42 + dhcp_payload_len options) \<and> length pkt = length buf \<and>
    dec_eth_hdr pkt = \<lparr>eth_dst = replicate 6 0xFF, eth_src = mac, eth_ethertype = 0x0800\<rparr> \<and>
    pkt ! 14 = 0x45 \<and> pkt ! 23 = 17 \<and>
    be16_at pkt 16 = word_of_nat (28 + dhcp_payload_len options) \<and>
    fold_carries (sum_words pkt 14) = 0xFFFF \<and>
    be16_at pkt 34 = DHCP_CLIENT_PORT \<and> be16_at pkt 36 = DHCP_SERVER_PORT \<and>
    be16_at pkt 38 = word_of_nat (8 + dhcp_payload_len options) \<and>
    be32_at pkt 46 = xid \<and> take 6 (drop 70 pkt) = mac \<and> be32_at pkt 278 = DHCP_MAGIC_COOKIE \<and>
    take (length options) (drop 282 pkt) = options)"
proof -
  obtain buf1 where w: "wr_all buf (packet_stores n mac xid options) = Inr buf1"
    and len: "length buf1 = length buf"
    and nth: "\<forall>k < length buf. buf1 ! k = stored_at (packet_stores n mac xid options) k (buf ! k)"
    by (rule packet_stores_run [where xid = xid, OF assms(1-4)])
  let ?c = "NOT (ucast (fold_carries (sum_words buf1 14)) :: u16)"
  let ?pkt = "take 24 buf1 @ be16 ?c @ drop 26 buf1"
  have big: "300 \<le> length buf" using assms by simp
  note st = packet_stores_def dhcp_stores_def
  have pkt: "?pkt ! k = stored_at (packet_stores n mac xid options) k (buf ! k)"
    if "k < length buf" "k < 24 \<or> 26 \<le> k" for k
    using that nth len big by (auto simp: nth_append)
  have "be16_at buf1 24 = 0" "be16_at buf1 14 = 0x4500"
    using big assms(1-4) by (simp_all add: be16_at_def nth st)
  then have "fold_carries (sum_words ?pkt 14) = 0xFFFF"
    using header_words_update [of 14 buf1 ?c] big len first_word_nonzero [of buf1 14]
    by (intro stored_checksum_verifies [where buf = buf1]) simp_all
  moreover have "take 6 (drop 70 ?pkt) = mac" "take 6 (drop 6 ?pkt) = mac"
      "take 6 ?pkt = replicate 6 0xFF"
    using big assms(1-4) len pkt by (auto intro!: nth_equalityI simp: st simp del: drop_append take_append)
  moreover have "take (length options) (drop 282 ?pkt) = options"
    using big assms(1-4) len pkt by (intro nth_equalityI) (simp_all add: st del: drop_append)
  moreover have "be16_at ?pkt 16 = word_of_nat (28 + dhcp_payload_len options)"
      "be16_at ?pkt 38 = word_of_nat (8 + dhcp_payload_len options)"
      "be16_at ?pkt 12 = 0x0800" "be16_at ?pkt 34 = 68" "be16_at ?pkt 36 = 67"
    using big assms(1-4) pkt by (simp_all add: be16_at_def st be16_nth be16_split)
  moreover have "be32_at ?pkt 46 = xid" "be32_at ?pkt 278 = DHCP_MAGIC_COOKIE"
    using big assms(1-4) pkt
    by (simp_all add: be32_at_def st be32_def le32_def u32_of_le32 del: DHCP_MAGIC_COOKIE_def)
  moreover have "?pkt ! 14 = 0x45" "?pkt ! 23 = 17"
    using big assms(1-4) pkt by (simp_all add: st)
  moreover have "dhcp_build buf n mac xid options = Inr (int (42 + dhcp_payload_len options), ?pkt)"
    using w big assms len
    by (simp add: dhcp_build_def packet_stores_def Let_def dhcp_payload_len_def)
  moreover have "length ?pkt = length buf" using len big by simp
  ultimately show ?thesis by (simp add: dec_eth_hdr_def)
qed

lemma discover_options_tlvs:
  "discover_options = concat (map enc_tlv [(53, [1]), (55, [1, 3, 6])]) @ [0xFF]"
  by (simp add: discover_options_def enc_tlv_def)

lemma request_options_tlvs:
  "request_options ip server = concat (map enc_tlv
     [(53, [3]), (50, le32 ip), (54, le32 server), (55, [1, 3, 6])]) @ [0xFF]"
  by (simp add: request_options_def enc_tlv_def)

lemma scan_taken:
  assumes "take (length (concat (map enc_tlv os)) + 1) buf = concat (map enc_tlv os) @ [0xFF]"
    and "list_all wf_tlv os"
  shows "scan_options ws buf (length (concat (map enc_tlv os)) + 1) 0 st = Inr (fold (note_option ws) os st)"
proof -
  let ?n = "length (concat (map enc_tlv os)) + 1"
  have "buf = (concat (map enc_tlv os) @ [0xFF]) @ drop ?n buf"
    by (metis append_take_drop_id assms(1))
  then have "buf = concat (map enc_tlv os) @ 0xFF # drop ?n buf" by simp
  then show ?thesis using scan_enc_tlvs [OF assms(2), of "[]" ?n ws "drop ?n buf" st] by simp
qed

lemma dhcp_payload_lens [simp]:
  "dhcp_payload_len discover_options = 258" "dhcp_payload_len (request_options ip server) = 261"
  by (simp_all add: dhcp_payload_len_def discover_options_def request_options_def)

lemma length_discover_options [simp]: "length discover_options = 9"
  by (simp add: discover_options_def)

lemma length_request_options [simp]: "length (request_options ip server) = 21"
  by (simp add: request_options_def)

section \<open>Properties\<close>





text \<open>
  The size check of \<open>dhcp_build_request\<close> is copied from the DISCOVER packet: a buffer of 300 to 302
  bytes passes it, and the 303-byte packet does not fit.
\<close>

lemma request_overflows_accepted_buffer:
  "dhcp_build_request (replicate 300 0) 300 (replicate 6 1) xid ip server = Inl Oob_Write"
  by (simp add: dhcp_build_request_def dhcp_build_def dhcp_stores_def Let_def wr_bytes_def)

text \<open>
  \<open>dhcp_parse_options\<close> reads nothing outside the options, whatever they contain.
\<close>

theorem dhcp_parse_options_in_bounds:
  assumes "len \<le> length opts"
  shows "runs_to (dhcp_parse_options opts len st) (\<lambda>_. True)"
  unfolding dhcp_parse_options_def using assms by (rule parse_options_from_runs)

lemma dhcp_parse_options_in_bounds_witness:
  "runs_to (dhcp_parse_options [6, 8, 1, 2] 4 zero_opts) (\<lambda>_. True)"
  by (rule dhcp_parse_options_in_bounds) simp

text \<open>
  C31: Options as a server writes them are understood one by one, in order, up to the end mark, and
  what follows the end mark is ignored.
\<close>

theorem dhcp_options_understood:
  assumes "list_all wf_tlv os" "length (concat (map enc_tlv os)) < len"
  shows "dhcp_parse_options (concat (map enc_tlv os) @ 0xFF # r) len st = Inr (fold tlv_meaning os st)"
  using parse_enc_tlvs [OF assms(1), of "[]"] assms(2) by (simp add: dhcp_parse_options_def)

lemma dhcp_options_understood_witness:
  "dhcp_parse_options (concat (map enc_tlv [(1, [255, 255, 255, 0]), (6, [8, 8, 8, 8, 8, 8, 4, 4])]) @
       0xFF # [3, 4, 1, 1, 1, 1]) 64 zero_opts =
     Inr \<lparr>o_gateway = 0, o_netmask = u32_of 255 255 255 0, o_dns1 = u32_of 8 8 8 8,
          o_dns2 = u32_of 8 8 4 4\<rparr>"
  using dhcp_options_understood [of "[(1, [255, 255, 255, 0]), (6, [8, 8, 8, 8, 8, 8, 4, 4])]" 64
      "[3, 4, 1, 1, 1, 1]" zero_opts]
  by (simp add: wf_tlv_def tlv_meaning_def zero_opts_def u32_at_def)

end
