(* ===== verification/Dhcp_Client.thy ===== *)
theory Dhcp_Client
  imports Dhcp
begin

text \<open>
  \<^verbatim>\<open>src/dhcp.c\<close>, \<open>dhcp_discover\<close>: the discover / offer / request / ack dialogue over the bulk
  endpoints.  Reads of a received packet go to the receive buffer behind the frame pointer, whose end
  is the end of the buffer and not the end of the frame, as in the code.  The two loops over a
  received transfer are the message loop of \<open>Proto_Rndis\<close> with \<open>offer_message\<close> and \<open>ack_message\<close> as
  bodies; both are interpretations of its contract.
\<close>

section \<open>Matching an answer\<close>

text \<open>
  The nested conditions on a frame: long enough, IPv4, UDP, to the client port, with the magic
  cookie and our transaction identifier.  The result is the offset of the options, \<open>opts_len\<close> (a
  \<open>size_t\<close> difference) and \<open>yiaddr\<close>.
\<close>

definition match_dhcp :: "buffer \<Rightarrow> nat \<Rightarrow> u32 \<Rightarrow> (nat \<times> nat \<times> u32) option run" where
  "match_dhcp frame frame_len xid =
     (if frame_len < sizeof_eth_hdr + 20 + 8 + sizeof_dhcp_packet then Inr None
      else bindR (rd_bytes frame 0 sizeof_eth_hdr) (\<lambda>e.
        if eth_ethertype (dec_eth_hdr e) \<noteq> 0x0800 then Inr None
        else bindR (rd_u8 frame (sizeof_eth_hdr + 9)) (\<lambda>ip_p.
          if ip_p \<noteq> 17 then Inr None
          else bindR (rd_u8 frame sizeof_eth_hdr) (\<lambda>vhl.
            let udp = sizeof_eth_hdr + unat (vhl AND 0x0F) * 4
            in bindR (rd_bytes frame (udp + 2) 2) (\<lambda>dport.
               if be16_at dport 0 \<noteq> DHCP_CLIENT_PORT then Inr None
               else let dhcp = udp + 8
                    in bindR (rd_bytes frame (dhcp + 236) 4) (\<lambda>magic.
                       if be32_at magic 0 \<noteq> DHCP_MAGIC_COOKIE then Inr None
                       else bindR (rd_bytes frame (dhcp + 4) 4) (\<lambda>x.
                         if be32_at x 0 \<noteq> xid then Inr None
                         else let opts_offset = dhcp + sizeof_dhcp_packet
                              in bindR (rd_u32 frame (dhcp + 16)) (\<lambda>yiaddr.
                                 Inr (Some (opts_offset, size_sub frame_len opts_offset, yiaddr))))))))))"

record offer_state =
  offered_addr :: u32
  server_addr :: u32
  offer_opts :: dhcp_opts

text \<open>The body of the loop that waits for an offer; it leaves the loop with \<open>found_offer\<close>.\<close>

definition offer_message :: "u32 \<Rightarrow> buffer \<Rightarrow> u32 \<Rightarrow> offer_state \<Rightarrow> (bool \<times> offer_state) run" where
  "offer_message xid pkt msg_len s =
     bindR (rndis_parse_data_packet pkt (unat msg_len)) (\<lambda>(r, fr).
       case fr of None \<Rightarrow> Inr (False, s)
       | Some (start, frame_len) \<Rightarrow>
           let frame = drop start pkt
           in bindR (match_dhcp frame frame_len xid) (\<lambda>m.
              case m of None \<Rightarrow> Inr (False, s)
              | Some (opts_offset, opts_len, yiaddr) \<Rightarrow>
                  let opts = drop opts_offset frame
                  in bindR (scan_options True opts opts_len 0 (0, server_addr s)) (\<lambda>(msg_type, server).
                     let s1 = s\<lparr>server_addr := server\<rparr>
                     in if msg_type = 2 then
                          bindR (dhcp_parse_options opts opts_len (offer_opts s1)) (\<lambda>o'.
                          Inr (True, s1\<lparr>offered_addr := yiaddr, offer_opts := o'\<rparr>))
                        else Inr (False, s1))))"

text \<open>\<open>inet_ntoa\<close> of the C library: the four bytes of the address in decimal, with dots.\<close>

definition digit :: "nat \<Rightarrow> char" where
  "digit n = ''0123456789'' ! (n mod 10)"

definition decimal_byte :: "byte \<Rightarrow> string" where
  "decimal_byte b =
     (let n = unat b
      in if n < 10 then [digit n]
         else if n < 100 then [digit (n div 10), digit n]
         else [digit (n div 100), digit (n div 10), digit n])"

definition inet_ntoa :: "u32 \<Rightarrow> string" where
  "inet_ntoa a = (case map decimal_byte (le32 a) of
     [w, x, y, z] \<Rightarrow> w @ ''.'' @ x @ ''.'' @ y @ ''.'' @ z | _ \<Rightarrow> [])"

definition lease_of :: "u32 \<Rightarrow> dhcp_opts \<Rightarrow> dhcp_lease" where
  "lease_of yiaddr o' =
     \<lparr>l_ip = strlcpy 16 (inet_ntoa yiaddr),
      l_gateway = strlcpy 16 (if o_gateway o' \<noteq> 0 then inet_ntoa (o_gateway o') else DEFAULT_GATEWAY),
      l_netmask = strlcpy 16 (if o_netmask o' \<noteq> 0 then inet_ntoa (o_netmask o') else DEFAULT_NETMASK),
      l_dns1 = strlcpy 16 (if o_dns1 o' \<noteq> 0 then inet_ntoa (o_dns1 o') else DEFAULT_DNS1),
      l_dns2 = strlcpy 16 (if o_dns2 o' \<noteq> 0 then inet_ntoa (o_dns2 o') else DEFAULT_DNS2)\<rparr>"

text \<open>The body of the loop that waits for the ACK; where it leaves the loop the function returns 0.\<close>

definition ack_message ::
    "u32 \<Rightarrow> buffer \<Rightarrow> u32 \<Rightarrow> dhcp_opts \<times> dhcp_lease \<Rightarrow> (bool \<times> dhcp_opts \<times> dhcp_lease) run" where
  "ack_message xid pkt msg_len s =
     bindR (rndis_parse_data_packet pkt (unat msg_len)) (\<lambda>(r, fr).
       case fr of None \<Rightarrow> Inr (False, s)
       | Some (start, frame_len) \<Rightarrow>
           let frame = drop start pkt
           in bindR (match_dhcp frame frame_len xid) (\<lambda>m.
              case m of None \<Rightarrow> Inr (False, s)
              | Some (opts_offset, opts_len, yiaddr) \<Rightarrow>
                  let opts = drop opts_offset frame
                  in bindR (scan_options False opts opts_len 0 (0, 0)) (\<lambda>(msg_type, _).
                     if msg_type = 5 then
                       bindR (dhcp_parse_options opts opts_len (fst s)) (\<lambda>o'.
                       Inr (True, o', lease_of yiaddr o'))
                     else Inr (False, s))))"

definition empty_lease :: dhcp_lease where
  "empty_lease = \<lparr>l_ip = [], l_gateway = [], l_netmask = [], l_dns1 = [], l_dns2 = []\<rparr>"

section \<open>The dialogue\<close>

text \<open>
  Receive with a timeout of 200 ms at most \<open>attempts\<close> times; every transfer with data goes through
  the message loop, and \<open>True\<close> says that the loop was left with a result.
\<close>

fun wait_answer ::
    "(buffer \<Rightarrow> u32 \<Rightarrow> 's \<Rightarrow> (bool \<times> 's) run) \<Rightarrow> nat \<Rightarrow> nat \<Rightarrow> 'd libusb \<Rightarrow> usb_device \<Rightarrow>
     buffer \<Rightarrow> 's \<Rightarrow> 'd \<Rightarrow> (bool \<times> buffer \<times> 's \<times> 'd) run" where
  "wait_answer body fuel 0 lib usb buf s d = Inr (False, buf, s, d)"
| "wait_answer body fuel (Suc attempts) lib usb buf s d =
     bindR (usb_recv_bulk lib usb buf RNDIS_BUF_SIZE 200 d) (\<lambda>(ret, buf', d').
       if ret \<le> 0 then wait_answer body fuel attempts lib usb buf' s d'
       else bindR (rndis_walk body fuel buf' (word_of_int ret) 0 s) (\<lambda>(found, s').
         if found then Inr (True, buf', s', d')
         else wait_answer body fuel attempts lib usb buf' s' d'))"

definition send_frame ::
    "'d libusb \<Rightarrow> usb_device \<Rightarrow> buffer \<Rightarrow> buffer \<Rightarrow> nat \<Rightarrow> 'd \<Rightarrow> (int \<times> buffer \<times> 'd) run" where
  "send_frame lib usb rndis_buf eth_buf len d =
     bindR (rndis_build_data_packet rndis_buf RNDIS_BUF_SIZE eth_buf len) (\<lambda>(rndis_len, buf).
       if rndis_len < 0 then Inr (-1, buf, d)
       else bindR (usb_send_bulk lib usb buf (nat rndis_len) d) (\<lambda>(ret, d').
         if ret < 0 then Inr (-1, buf, d') else Inr (0, buf, d')))"

definition dhcp_xid :: u32 where "dhcp_xid = 0x12345678"

text \<open>The second half: request the offered address and wait for the ACK.\<close>

definition dhcp_request_phase where
  "dhcp_request_phase fuel lib usb rndis_buf eth_buf mac s lease d =
     bindR (dhcp_build_request eth_buf ETH_BUF_SIZE mac dhcp_xid (offered_addr s) (server_addr s))
       (\<lambda>(len, eth1).
         if len < 0 then Inr (-1 :: int, lease, d)
         else bindR (send_frame lib usb rndis_buf eth1 (nat len) d) (\<lambda>(ret, rndis1, d1).
           if ret < 0 then Inr (-1, lease, d1)
           else bindR (wait_answer (ack_message dhcp_xid) fuel 50 lib usb rndis1
                         (offer_opts s, lease) d1)
             (\<lambda>(acked, _, (_, lease'), d2). if acked then Inr (0, lease', d2) else Inr (-1, lease', d2))))"

definition dhcp_discover ::
    "nat \<Rightarrow> 'd libusb \<Rightarrow> usb_device \<Rightarrow> buffer \<Rightarrow> buffer \<Rightarrow> rndis_state \<Rightarrow> dhcp_lease \<Rightarrow> 'd \<Rightarrow>
     (int \<times> dhcp_lease \<times> 'd) run" where
  "dhcp_discover fuel lib usb rndis_buf eth_buf rndis lease d =
     bindR (dhcp_build_discover eth_buf ETH_BUF_SIZE (mac_addr rndis) dhcp_xid) (\<lambda>(len, eth1).
       if len < 0 then Inr (-1, lease, d)
       else bindR (send_frame lib usb rndis_buf eth1 (nat len) d) (\<lambda>(ret, rndis1, d1).
         if ret < 0 then Inr (-1, lease, d1)
         else bindR (wait_answer (offer_message dhcp_xid) fuel 50 lib usb rndis1
                       \<lparr>offered_addr = 0, server_addr = 0, offer_opts = zero_opts\<rparr> d1)
           (\<lambda>(_, rndis2, s, d2).
             if offered_addr s = 0 then Inr (-1, lease, d2)
             else dhcp_request_phase fuel lib usb rndis2 eth1 (mac_addr rndis) s lease d2)))"

section \<open>The message bodies are safe\<close>

text \<open>
  What the code relies on and does not check: a frame in the message that is long enough for a DHCP
  packet is also long enough for the IP header length it states, and there are four more bytes in
  the receive buffer behind it.
\<close>

definition answer_fits :: "buffer \<Rightarrow> u32 \<Rightarrow> bool" where
  "answer_fits pkt m = (case rndis_parse_data_packet pkt (unat m) of
     Inr (_, Some (start, n)) \<Rightarrow> start + n + 4 \<le> length pkt \<and>
       (282 \<le> n \<longrightarrow> 262 + 4 * unat ((pkt ! (start + 14)) AND 0x0F) \<le> n)
   | _ \<Rightarrow> True)"

lemma match_dhcp_runs:
  assumes "n \<le> length frame" "n < 2 ^ 32"
    and "282 \<le> n \<longrightarrow> 262 + 4 * unat ((frame ! 14) AND 0x0F) \<le> n"
  shows "runs_to (match_dhcp frame n xid) (\<lambda>m. case m of None \<Rightarrow> True
    | Some (opts_offset, opts_len, _) \<Rightarrow> opts_offset + opts_len = n)"
  using assms by (auto simp: match_dhcp_def run_simps Let_def)

text \<open>A dotted address: at most 15 characters, only digits and dots.\<close>

definition is_digit_char :: "char \<Rightarrow> bool" where
  "is_digit_char c = (c \<in> set ''0123456789'')"

definition dotted :: "string \<Rightarrow> bool" where
  "dotted s = (s \<noteq> [] \<and> length s \<le> 15 \<and> list_all (\<lambda>c. is_digit_char c \<or> c = CHR ''.'') s)"

definition dotted_lease :: "dhcp_lease \<Rightarrow> bool" where
  "dotted_lease l = (dotted (l_ip l) \<and> dotted (l_gateway l) \<and> dotted (l_netmask l) \<and>
     dotted (l_dns1 l) \<and> dotted (l_dns2 l))"

lemma digit_in [simp]: "is_digit_char (digit n)"
  unfolding digit_def is_digit_char_def by (rule nth_mem) simp

lemma decimal_byte_dotted:
  "length (decimal_byte b) \<le> 3" "decimal_byte b \<noteq> []" "list_all is_digit_char (decimal_byte b)"
  by (simp_all add: decimal_byte_def Let_def)

lemma inet_ntoa_dotted: "dotted (inet_ntoa a)"
proof -
  obtain w x y z where a: "le32 a = [w, x, y, z]" by (simp add: le32_def)
  show ?thesis
    using decimal_byte_dotted(1) [of w] decimal_byte_dotted(1) [of x] decimal_byte_dotted(1) [of y]
      decimal_byte_dotted(1) [of z] decimal_byte_dotted(3)
    by (auto simp: inet_ntoa_def a dotted_def list_all_iff decimal_byte_dotted(2))
qed

lemma dotted_strlcpy [simp]: "dotted s \<Longrightarrow> strlcpy 16 s = s"
  by (simp add: dotted_def)

lemma dotted_defaults:
  "dotted DEFAULT_GATEWAY" "dotted DEFAULT_NETMASK" "dotted DEFAULT_DNS1" "dotted DEFAULT_DNS2"
  by (simp_all add: dotted_def is_digit_char_def DEFAULT_GATEWAY_def DEFAULT_NETMASK_def DEFAULT_DNS1_def DEFAULT_DNS2_def)

lemma lease_of_dotted: "dotted_lease (lease_of y o')"
  by (simp add: dotted_lease_def lease_of_def inet_ntoa_dotted dotted_defaults)

lemma frame_of_answer:
  assumes "answer_fits pkt m" "unat m \<le> length pkt"
  obtains "rndis_parse_data_packet pkt (unat m) = Inr (-1, None)"
  | start n where "rndis_parse_data_packet pkt (unat m) = Inr (0, Some (start, n))"
    "n + 4 \<le> length (drop start pkt)" "n < 2 ^ 32"
    "282 \<le> n \<longrightarrow> 262 + 4 * unat ((drop start pkt ! 14) AND 0x0F) \<le> n"
proof -
  from parse_data_packet_runs [OF assms(2)] obtain r fr
    where p: "rndis_parse_data_packet pkt (unat m) = Inr (r, fr)"
      "case fr of None \<Rightarrow> r = -1 | Some (start, n) \<Rightarrow> r = 0 \<and> n < 2 ^ 32"
    by (auto elim!: runs_toE split: option.splits)
  show ?thesis
    by (cases fr) (use p assms(1) that in \<open>auto simp: answer_fits_def add.commute\<close>)
qed

lemma options_of_answer:
  assumes "n + 4 \<le> length frame" "n < 2 ^ 32"
    and "282 \<le> n \<longrightarrow> 262 + 4 * unat ((frame ! 14) AND 0x0F) \<le> n"
  obtains "match_dhcp frame n xid = Inr None"
  | off len y where "match_dhcp frame n xid = Inr (Some (off, len, y))"
    "\<And>ws st. runs_to (scan_options ws (drop off frame) len 0 st) (\<lambda>_. True)"
    "\<And>st. runs_to (dhcp_parse_options (drop off frame) len st) (\<lambda>_. True)"
proof -
  have "runs_to (match_dhcp frame n xid) (\<lambda>m. case m of None \<Rightarrow> True
    | Some (opts_offset, opts_len, _) \<Rightarrow> opts_offset + opts_len = n)"
    using assms by (intro match_dhcp_runs) auto
  then obtain mt where mt: "match_dhcp frame n xid = Inr mt"
      "case mt of None \<Rightarrow> True | Some (off, len, _) \<Rightarrow> off + len = n"
    by (auto elim!: runs_toE)
  show ?thesis
  proof (cases mt)
    case None
    with mt that show ?thesis by simp
  next
    case (Some t)
    then obtain off len y where t: "mt = Some (off, len, y)" "off + len = n" using mt(2) by (cases t) auto
    then have room: "len + 4 \<le> length (drop off frame)" using assms(1) by auto
    show ?thesis
    proof (rule that(2))
      show "match_dhcp frame n xid = Inr (Some (off, len, y))" using mt t by simp
      show "runs_to (scan_options ws (drop off frame) len 0 st) (\<lambda>_. True)" for ws st
        using room by (rule scan_options_runs)
      show "runs_to (dhcp_parse_options (drop off frame) len st) (\<lambda>_. True)" for st
        unfolding dhcp_parse_options_def using room by (intro parse_options_from_runs) simp
    qed
  qed
qed

lemma offer_message_runs:
  assumes "answer_fits pkt m" "unat m \<le> length pkt"
  shows "runs_to (offer_message xid pkt m s) (\<lambda>(found, s'). found \<or> offered_addr s' = offered_addr s)"
  using assms
proof (cases rule: frame_of_answer)
  case 1
  then show ?thesis by (simp add: offer_message_def)
next
  case (2 start n)
  show ?thesis
  proof (cases rule: options_of_answer [OF 2(2-4), of xid])
    case 1
    with 2(1) show ?thesis by (simp add: offer_message_def)
  next
    case (2 off len y)
    then obtain ty sv o' where "scan_options True (drop off (drop start pkt)) len 0 (0, server_addr s) = Inr (ty, sv)"
        "dhcp_parse_options (drop off (drop start pkt)) len (offer_opts s) = Inr o'"
      by (metis runs_toE surj_pair)
    with 2(1) \<open>rndis_parse_data_packet pkt (unat m) = Inr (0, Some (start, n))\<close> show ?thesis
      by (simp add: offer_message_def Let_def del: drop_drop)
  qed
qed

lemma ack_message_runs:
  assumes "answer_fits pkt m" "unat m \<le> length pkt"
  shows "runs_to (ack_message xid pkt m s) (\<lambda>(found, s').
    if found then dotted_lease (snd s') else s' = s)"
  using assms
proof (cases rule: frame_of_answer)
  case 1
  then show ?thesis by (simp add: ack_message_def)
next
  case (2 start n)
  show ?thesis
  proof (cases rule: options_of_answer [OF 2(2-4), of xid])
    case 1
    with 2(1) show ?thesis by (simp add: ack_message_def)
  next
    case (2 off len y)
    then obtain ty sv o' where "scan_options False (drop off (drop start pkt)) len 0 (0, 0) = Inr (ty, sv)"
        "dhcp_parse_options (drop off (drop start pkt)) len (fst s) = Inr o'"
      by (metis runs_toE surj_pair)
    with 2(1) \<open>rndis_parse_data_packet pkt (unat m) = Inr (0, Some (start, n))\<close> show ?thesis
      by (simp add: ack_message_def Let_def lease_of_dotted del: drop_drop)
  qed
qed

interpretation offer: message_handler "offer_message xid" answer_fits "\<lambda>_. True" for xid
  by unfold_locales (auto intro: runs_to_mono offer_message_runs)

text \<open>The lease is the caller's until an ACK fills it in.\<close>

interpretation ack: message_handler "ack_message xid" answer_fits
    "\<lambda>(_, lease). lease = lease0 \<or> dotted_lease lease" for xid lease0
  by unfold_locales (auto split: prod.splits if_splits intro!: runs_to_mono [OF ack_message_runs])

section \<open>An answer of a well-behaved server\<close>

text \<open>
  The 282 bytes before the options: Ethernet, a 20-byte IP header, UDP, and the fixed DHCP fields.
\<close>

definition answer_header :: "u32 \<Rightarrow> buffer \<Rightarrow> bool" where
  "answer_header xid h = (length h = 282 \<and> be16_at h 12 = 0x0800 \<and> h ! 14 = 0x45 \<and> h ! 23 = 17 \<and>
     be16_at h 36 = DHCP_CLIENT_PORT \<and> be32_at h 278 = DHCP_MAGIC_COOKIE \<and> be32_at h 46 = xid)"

definition yiaddr_of :: "buffer \<Rightarrow> u32" where
  "yiaddr_of h = u32_at h 58"

definition answer_frame :: "buffer \<Rightarrow> tlv list \<Rightarrow> buffer \<Rightarrow> buffer" where
  "answer_frame h os pad = h @ concat (map enc_tlv os) @ 0xFF # pad"

lemma length_answer_frame:
  "answer_header xid h \<Longrightarrow>
     length (answer_frame h os pad) = 283 + length (concat (map enc_tlv os)) + length pad"
  by (simp add: answer_frame_def answer_header_def)

lemma be16_at_prefix: "k + 2 \<le> length v \<Longrightarrow> be16_at (v @ r) k = be16_at v k"
  by (simp add: be16_at_def nth_append)

lemma be32_at_prefix: "k + 4 \<le> length v \<Longrightarrow> be32_at (v @ r) k = be32_at v k"
  by (simp add: be32_at_def nth_append)

lemma match_answer_header:
  assumes "answer_header xid h" "282 \<le> n" "n < 2 ^ 32"
  shows "match_dhcp (h @ t) n xid = Inr (Some (282, n - 282, yiaddr_of h))"
proof -
  let ?f = "h @ t"
  have h: "length h = 282" "be16_at h 12 = 0x0800" "h ! 14 = 0x45" "h ! 23 = 17" "be16_at h 36 = 68"
      "be32_at h 278 = DHCP_MAGIC_COOKIE" "be32_at h 46 = xid"
    using assms(1) by (simp_all add: answer_header_def)
  have "rd_bytes ?f 0 14 = Inr (take 14 h)" "rd_bytes ?f 36 2 = Inr (take 2 (drop 36 h))"
      "rd_bytes ?f 278 4 = Inr (take 4 (drop 278 h))" "rd_bytes ?f 46 4 = Inr (take 4 (drop 46 h))"
      "rd_u8 ?f 23 = Inr 17" "rd_u8 ?f 14 = Inr 0x45" "rd_u32 ?f 58 = Inr (u32_at h 58)"
    using h by (simp_all add: rd_u8_def nth_append u32_at_prefix)
  moreover have "be16_at (take 14 h) 12 = 0x0800" "be16_at (take 2 (drop 36 h)) 0 = 68"
      "be32_at (take 4 (drop 278 h)) 0 = DHCP_MAGIC_COOKIE" "be32_at (take 4 (drop 46 h)) 0 = xid"
    using h by (simp_all add: be16_at_take be32_at_take be16_at_drop be32_at_drop del: DHCP_MAGIC_COOKIE_def)
  ultimately show ?thesis
    using assms(2,3) by (simp add: match_dhcp_def Let_def dec_eth_hdr_def yiaddr_of_def)
qed

lemma match_answer:
  assumes "answer_header xid h" "length (answer_frame h os pad) < 2 ^ 32"
  shows "match_dhcp (answer_frame h os pad @ rest) (length (answer_frame h os pad)) xid =
    Inr (Some (282, length (answer_frame h os pad) - 282, yiaddr_of h))"
  using match_answer_header [OF assms(1) _ assms(2)] length_answer_frame [OF assms(1), of os pad]
  by (simp add: answer_frame_def)

lemma options_of_answer_frame:
  assumes "answer_header xid h" "list_all wf_tlv os"
    and f_def: "f = answer_frame h os pad"
  shows "scan_options ws (drop 282 (f @ rest)) (length f - 282) 0 st = Inr (fold (note_option ws) os st)"
    and "dhcp_parse_options (drop 282 (f @ rest)) (length f - 282) st' = Inr (fold tlv_meaning os st')"
proof -
  have l: "length f - 282 = length (concat (map enc_tlv os)) + 1 + length pad" "length h = 282"
    using assms length_answer_frame [OF assms(1), of os pad] by (auto simp: answer_header_def)
  have d: "drop 282 (f @ rest) = concat (map enc_tlv os) @ 0xFF # pad @ rest"
    using l(2) by (simp add: f_def answer_frame_def)
  show "scan_options ws (drop 282 (f @ rest)) (length f - 282) 0 st = Inr (fold (note_option ws) os st)"
    unfolding d using scan_enc_tlvs [OF assms(2), of "[]" "length f - 282" ws "pad @ rest" st] l by simp
  show "dhcp_parse_options (drop 282 (f @ rest)) (length f - 282) st' = Inr (fold tlv_meaning os st')"
    unfolding d dhcp_parse_options_def
    using parse_enc_tlvs [OF assms(2), of "[]" "length f - 282" "pad @ rest" st'] l by simp
qed

lemma parse_answer_wire:
  assumes "answer_header xid h" "44 + length (answer_frame h os pad) + length p < 2 ^ 32"
  shows "rndis_parse_data_packet (wire_message (answer_frame h os pad, p) @ rest)
      (44 + length (answer_frame h os pad) + length p) = Inr (0, Some (44, length (answer_frame h os pad)))"
proof -
  have "0 < length (answer_frame h os pad)" using length_answer_frame [OF assms(1)] by simp
  from parse_wire_message [OF this assms(2)] show ?thesis by (simp add: wire_message_def)
qed

lemma drop_wire: "drop 44 (wire_message (f, p) @ rest) = f @ p @ rest"
  by (simp add: wire_message_def)

lemma offer_answered:
  assumes "answer_header xid h" "list_all wf_tlv os"
    and "44 + length (answer_frame h os pad) + length p < 2 ^ 32"
    and "fst (fold (note_option True) os (0, server_addr s)) = 2"
  shows "offer_message xid (wire_message (answer_frame h os pad, p) @ rest)
      (word_of_nat (44 + length (answer_frame h os pad) + length p)) s =
    Inr (True, \<lparr>offered_addr = yiaddr_of h,
      server_addr = snd (fold (note_option True) os (0, server_addr s)),
      offer_opts = fold tlv_meaning os (offer_opts s)\<rparr>)"
proof -
  have n: "unat (word_of_nat (44 + length (answer_frame h os pad) + length p) :: u32) =
      44 + length (answer_frame h os pad) + length p"
    using assms(3) by (intro unat_of_nat_u32) simp
  obtain mt sv where f: "fold (note_option True) os (0, server_addr s) = (mt, sv)" by fastforce
  have "mt = 2" using assms(4) f by simp
  then show ?thesis
    using options_of_answer_frame(1) [OF assms(1,2) refl, where pad = pad and rest = "p @ rest" and ws = True]
      options_of_answer_frame(2) [OF assms(1,2) refl, where pad = pad and rest = "p @ rest"] assms(3)
      match_answer [OF assms(1), of os pad "p @ rest"]
    unfolding offer_message_def n parse_answer_wire [OF assms(1,3)]
    by (simp add: drop_wire f Let_def del: drop_drop drop_append append_assoc of_nat_add)
qed

lemma ack_answered:
  assumes "answer_header xid h" "list_all wf_tlv os"
    and "44 + length (answer_frame h os pad) + length p < 2 ^ 32"
    and "fst (fold (note_option False) os (0, 0)) = 5"
  shows "ack_message xid (wire_message (answer_frame h os pad, p) @ rest)
      (word_of_nat (44 + length (answer_frame h os pad) + length p)) (o0, l0) =
    Inr (True, fold tlv_meaning os o0, lease_of (yiaddr_of h) (fold tlv_meaning os o0))"
proof -
  have n: "unat (word_of_nat (44 + length (answer_frame h os pad) + length p) :: u32) =
      44 + length (answer_frame h os pad) + length p"
    using assms(3) by (intro unat_of_nat_u32) simp
  obtain mt sv where f: "fold (note_option False) os (0, 0) = (mt, sv)" by fastforce
  have "mt = 5" using assms(4) f by simp
  then show ?thesis
    using options_of_answer_frame(1) [OF assms(1,2) refl, where pad = pad and rest = "p @ rest" and ws = False]
      options_of_answer_frame(2) [OF assms(1,2) refl, where pad = pad and rest = "p @ rest"] assms(3)
      match_answer [OF assms(1), of os pad "p @ rest"]
    unfolding ack_message_def n parse_answer_wire [OF assms(1,3)]
    by (simp add: drop_wire f Let_def del: drop_drop drop_append append_assoc of_nat_add)
qed

section \<open>The dialogue step by step\<close>

lemma send_frame_eq:
  assumes "length rb = RNDIS_BUF_SIZE" "n \<le> length eth" "n \<le> ETH_BUF_SIZE"
    and "lib_bulk_out lib (ep_out usb) (wire_message (take n eth, [])) USB_BULK_TIMEOUT d = ((None, k), d')"
  shows "send_frame lib usb rb eth n d =
    Inr (0, wire_message (take n eth, []) @ drop (44 + n) rb, d')"
proof -
  have "rndis_build_data_packet rb RNDIS_BUF_SIZE eth n =
      Inr (int (44 + n), wire_message (take n eth, []) @ drop (44 + n) rb)"
    using assms(1-3) by (simp add: build_data_packet_eq wire_message_def min_absorb2)
  then show ?thesis
    using assms by (simp add: send_frame_def usb_send_bulk_def nat_add_distrib min_absorb2)
qed

lemma recv_transfer:
  assumes "lib_bulk_in lib (ep_in usb) RNDIS_BUF_SIZE 200 d = ((None, bs), d')"
    and "length bs \<le> RNDIS_BUF_SIZE" "length buf = RNDIS_BUF_SIZE"
  shows "usb_recv_bulk lib usb buf RNDIS_BUF_SIZE 200 d =
    Inr (int (length bs), bs @ drop (length bs) buf, d')"
  using assms by (simp add: usb_recv_bulk_def)

lemma walk_stops:
  assumes "body (m @ rest) (word_of_nat (length m)) s = Inr (True, s')"
    and "u32_at (m @ rest) 4 = word_of_nat (length m)" "8 \<le> length m" "length m < 2 ^ 31"
  shows "rndis_walk body (Suc fuel) (m @ rest) (word_of_nat (length m)) 0 s = Inr (True, s')"
proof -
  have n: "unat (word_of_nat (length m) :: u32) = length m" using assms(4) by (intro unat_of_nat_u32) simp
  moreover from n assms(3) have "(word_of_nat (length m) :: u32) \<noteq> 0" by (metis unat_0 not_numeral_le_zero)
  ultimately show ?thesis using assms by (simp add: u32_le_iff)
qed

lemma wait_answered:
  assumes "lib_bulk_in lib (ep_in usb) RNDIS_BUF_SIZE 200 d = ((None, wire_message (f, p)), d')"
    and "44 + length f + length p \<le> RNDIS_BUF_SIZE" "length buf = RNDIS_BUF_SIZE"
    and "\<And>rest. body (wire_message (f, p) @ rest) (word_of_nat (44 + length f + length p)) s = Inr (True, s')"
  shows "wait_answer body (Suc fuel) (Suc k) lib usb buf s d =
    Inr (True, wire_message (f, p) @ drop (44 + length f + length p) buf, s', d')"
proof -
  let ?r = "drop (44 + length f + length p) buf"
  have "usb_recv_bulk lib usb buf RNDIS_BUF_SIZE 200 d =
      Inr (int (44 + length f + length p), wire_message (f, p) @ ?r, d')"
    using recv_transfer [OF assms(1)] assms(2,3) by simp
  moreover have "rndis_walk body (Suc fuel) (wire_message (f, p) @ ?r)
      (word_of_nat (44 + length f + length p)) 0 s = Inr (True, s')"
    using walk_stops [of body "wire_message (f, p)" ?r s s' fuel] assms(2) assms(4) [of ?r]
      u32_at_wire_message [of f p ?r] by simp
  ultimately show ?thesis by (simp del: of_nat_add rndis_walk.simps)
qed

lemma discover_frame:
  assumes "length mac = 6" "length eb = ETH_BUF_SIZE"
  obtains eth1 where "dhcp_build_discover eb ETH_BUF_SIZE mac xid = Inr (300, eth1)"
    "length eth1 = ETH_BUF_SIZE"
  using dhcp_build_runs [of ETH_BUF_SIZE discover_options eb mac xid] assms
  by (auto simp: dhcp_build_discover_def elim!: runs_toE)

lemma request_frame:
  assumes "length mac = 6" "length eb = ETH_BUF_SIZE"
  obtains eth1 where "dhcp_build_request eb ETH_BUF_SIZE mac xid ip sv = Inr (303, eth1)"
    "length eth1 = ETH_BUF_SIZE"
  using dhcp_build_runs [of ETH_BUF_SIZE "request_options ip sv" eb mac xid] assms
  by (auto simp: dhcp_build_request_def elim!: runs_toE)

lemma fifty: "(50 :: nat) = Suc 49"
  by simp

lemma wait_silent:
  assumes "\<And>d. snd (fst (lib_bulk_in lib (ep_in usb) RNDIS_BUF_SIZE 200 d)) = []"
    and "length buf = RNDIS_BUF_SIZE"
  shows "runs_to (wait_answer body fuel k lib usb buf s d) (\<lambda>(found, buf', s', d'). \<not> found \<and> s' = s \<and>
    d' = ((\<lambda>d. snd (lib_bulk_in lib (ep_in usb) RNDIS_BUF_SIZE 200 d)) ^^ k) d)"
  using assms(2)
proof (induction k arbitrary: buf d)
  case (Suc k)
  obtain err d1 where l: "lib_bulk_in lib (ep_in usb) RNDIS_BUF_SIZE 200 d = ((err, []), d1)"
    using assms(1) [of d] by (metis prod.collapse)
  have "\<exists>r. r \<le> 0 \<and> usb_recv_bulk lib usb buf RNDIS_BUF_SIZE 200 d = Inr (r, buf, d1)"
    using l by (auto simp: usb_recv_bulk_def split: option.splits libusb_error.splits)
  then obtain r where r: "r \<le> 0" "usb_recv_bulk lib usb buf RNDIS_BUF_SIZE 200 d = Inr (r, buf, d1)"
    by blast
  moreover have "d1 = snd (lib_bulk_in lib (ep_in usb) RNDIS_BUF_SIZE 200 d)" using l by simp
  ultimately show ?case
    using Suc.IH [of buf d1] Suc.prems by (simp only: wait_answer.simps funpow_Suc_right) simp
qed simp

section \<open>Properties\<close>

text \<open>
  C13: The dialogue gets the lease that the server gives: where the device takes the two packets and
  answers the first receive with an offer and the next one with an ACK, \<open>dhcp_discover\<close> returns 0 and
  the lease holds the acknowledged address and the options of the offer as the ACK overrides them.
\<close>

theorem dhcp_lease_obtained:
  assumes "length rb = RNDIS_BUF_SIZE" "length eb = ETH_BUF_SIZE" "length (mac_addr st) = 6"
    and "\<And>bs. lib_bulk_out lib (ep_out usb) bs USB_BULK_TIMEOUT d = ((None, n1 bs), d1)"
    and "lib_bulk_in lib (ep_in usb) RNDIS_BUF_SIZE 200 d1 = ((None, wire_message (answer_frame h1 os1 pad1, p1)), d2)"
    and "\<And>bs. lib_bulk_out lib (ep_out usb) bs USB_BULK_TIMEOUT d2 = ((None, n2 bs), d3)"
    and "lib_bulk_in lib (ep_in usb) RNDIS_BUF_SIZE 200 d3 = ((None, wire_message (answer_frame h2 os2 pad2, p2)), d4)"
    and "answer_header dhcp_xid h1" "list_all wf_tlv os1" "answer_header dhcp_xid h2" "list_all wf_tlv os2"
    and "fst (fold (note_option True) os1 (0, 0)) = 2" "fst (fold (note_option False) os2 (0, 0)) = 5"
    and "44 + length (answer_frame h1 os1 pad1) + length p1 \<le> RNDIS_BUF_SIZE"
    and "44 + length (answer_frame h2 os2 pad2) + length p2 \<le> RNDIS_BUF_SIZE"
    and "yiaddr_of h1 \<noteq> 0"
  shows "dhcp_discover (Suc fuel) lib usb rb eb st lease d =
    Inr (0, lease_of (yiaddr_of h2) (fold tlv_meaning os2 (fold tlv_meaning os1 zero_opts)), d4)"
proof -
  obtain eth1 where e1: "dhcp_build_discover eb ETH_BUF_SIZE (mac_addr st) dhcp_xid = Inr (300, eth1)"
    "length eth1 = ETH_BUF_SIZE" using discover_frame [OF assms(3,2)] .
  let ?s0 = "\<lparr>offered_addr = 0, server_addr = 0, offer_opts = zero_opts\<rparr>"
  let ?s1 = "\<lparr>offered_addr = yiaddr_of h1, server_addr = snd (fold (note_option True) os1 (0, 0)),
      offer_opts = fold tlv_meaning os1 zero_opts\<rparr>"
  obtain eth2 where e2: "dhcp_build_request eth1 ETH_BUF_SIZE (mac_addr st) dhcp_xid (yiaddr_of h1)
      (snd (fold (note_option True) os1 (0, 0))) = Inr (303, eth2)" "length eth2 = ETH_BUF_SIZE"
    using request_frame [OF assms(3) e1(2)] .
  obtain rb1 where s1: "send_frame lib usb rb eth1 300 d = Inr (0, rb1, d1)" "length rb1 = RNDIS_BUF_SIZE"
    using send_frame_eq [OF assms(1), of 300 eth1, OF _ _ assms(4)] assms(1) e1(2) by (simp add: min_absorb2)
  let ?b1 = "wire_message (answer_frame h1 os1 pad1, p1) @
      drop (44 + length (answer_frame h1 os1 pad1) + length p1) rb1"
  have w1: "wait_answer (offer_message dhcp_xid) (Suc fuel) 50 lib usb rb1 ?s0 d1 =
      Inr (True, ?b1, ?s1, d2)"
  unfolding fifty
  proof (rule wait_answered [OF assms(5)])
    show "offer_message dhcp_xid (wire_message (answer_frame h1 os1 pad1, p1) @ rest)
        (word_of_nat (44 + length (answer_frame h1 os1 pad1) + length p1)) ?s0 = Inr (True, ?s1)" for rest
      using offer_answered [OF assms(8,9), of pad1 p1 ?s0 rest] assms(12,14) by (simp del: of_nat_add)
  qed (use assms s1 in simp_all)
  have "length ?b1 = RNDIS_BUF_SIZE" using assms(14) s1(2) by simp
  then obtain rb2 where s2: "send_frame lib usb ?b1 eth2 303 d2 = Inr (0, rb2, d3)" "length rb2 = RNDIS_BUF_SIZE"
    using send_frame_eq [of ?b1 303 eth2, OF _ _ _ assms(6)] e2(2) by (simp add: min_absorb2)
  let ?o = "fold tlv_meaning os1 zero_opts"
  have "wait_answer (ack_message dhcp_xid) (Suc fuel) 50 lib usb rb2 (?o, lease) d3 =
      Inr (True, wire_message (answer_frame h2 os2 pad2, p2) @
        drop (44 + length (answer_frame h2 os2 pad2) + length p2) rb2,
        (fold tlv_meaning os2 ?o, lease_of (yiaddr_of h2) (fold tlv_meaning os2 ?o)), d4)"
  unfolding fifty
  proof (rule wait_answered [OF assms(7)])
    show "ack_message dhcp_xid (wire_message (answer_frame h2 os2 pad2, p2) @ rest)
        (word_of_nat (44 + length (answer_frame h2 os2 pad2) + length p2)) (?o, lease) =
        Inr (True, fold tlv_meaning os2 ?o, lease_of (yiaddr_of h2) (fold tlv_meaning os2 ?o))" for rest
      using ack_answered [OF assms(10,11), of pad2 p2 rest ?o lease] assms(13,15) by (simp del: of_nat_add)
  qed (use assms s2 in simp_all)
  then show ?thesis
    using e1 s1 w1 e2 s2 assms(16)
    by (simp add: dhcp_discover_def dhcp_request_phase_def del: wait_answer.simps)
qed

text \<open>A server for the witnesses.\<close>

definition demo_header :: buffer where
  "demo_header = replicate 12 7 @ [8, 0, 0x45] @ replicate 8 0 @ [17] @ replicate 12 0 @ [0, 68] @
     replicate 8 0 @ be32 dhcp_xid @ replicate 8 0 @ [192, 168, 42, 100] @ replicate 216 0 @
     be32 DHCP_MAGIC_COOKIE"

definition demo_offer :: "tlv list" where
  "demo_offer = [(53, [2]), (54, [192, 168, 42, 129]), (3, [192, 168, 42, 129])]"

definition demo_ack :: "tlv list" where
  "demo_ack = [(53, [5]), (1, [255, 255, 255, 0])]"

lemma demo_header_ok: "answer_header dhcp_xid demo_header" "yiaddr_of demo_header = u32_of 192 168 42 100"
  by (simp_all add: answer_header_def demo_header_def yiaddr_of_def nth_append be16_at_def u32_at_def
      be32_at_Cons be32_at_be32 [of _ "[]", simplified] del: DHCP_MAGIC_COOKIE_def)

lemma demo_options_ok:
  "list_all wf_tlv demo_offer" "list_all wf_tlv demo_ack"
  "fst (fold (note_option True) demo_offer (0, 0)) = 2" "fst (fold (note_option False) demo_ack (0, 0)) = 5"
  "length (answer_frame demo_header demo_offer []) = 298" "length (answer_frame demo_header demo_ack []) = 292"
  by (simp_all add: demo_offer_def demo_ack_def wf_tlv_def note_option_def answer_frame_def demo_header_def)

lemma demo_addresses_nonzero:
  "u32_of 192 168 42 129 \<noteq> 0" "u32_of 255 255 255 0 \<noteq> 0" "u32_of 192 168 42 100 \<noteq> 0"
  by (simp_all add: u32_of_def)

lemma inet_ntoa_u32_of:
  "inet_ntoa (u32_of a b c d) =
     decimal_byte a @ ''.'' @ decimal_byte b @ ''.'' @ decimal_byte c @ ''.'' @ decimal_byte d"
  by (simp add: inet_ntoa_def le32_u32_of)

lemma dhcp_lease_obtained_witness:
  "dhcp_discover 1 scripted_lib zero_usb_device (replicate 32768 0) (replicate 2048 0) zero_rndis_state empty_lease
     [wire_message (answer_frame demo_header demo_offer [], [0, 0]),
      wire_message (answer_frame demo_header demo_ack [], [])] =
   Inr (0, \<lparr>l_ip = ''192.168.42.100'', l_gateway = ''192.168.42.129'', l_netmask = ''255.255.255.0'',
            l_dns1 = ''8.8.8.8'', l_dns2 = ''8.8.4.4''\<rparr>, [])"
proof -
  have "lease_of (u32_of 192 168 42 100) (fold tlv_meaning demo_ack (fold tlv_meaning demo_offer zero_opts)) =
      \<lparr>l_ip = ''192.168.42.100'', l_gateway = ''192.168.42.129'', l_netmask = ''255.255.255.0'',
       l_dns1 = ''8.8.8.8'', l_dns2 = ''8.8.4.4''\<rparr>"
    using demo_addresses_nonzero
    by (simp add: lease_of_def demo_offer_def demo_ack_def tlv_meaning_def zero_opts_def u32_at_def
        inet_ntoa_u32_of decimal_byte_def digit_def DEFAULT_DNS1_def DEFAULT_DNS2_def Let_def)
  then show ?thesis
    using dhcp_lease_obtained [of "replicate 32768 0" "replicate 2048 0" zero_rndis_state scripted_lib
        zero_usb_device _ length _ demo_header demo_offer "[]" "[0, 0]" _ length _ demo_header demo_ack
        "[]" "[]" _ 0 empty_lease]
    by (simp add: demo_header_ok demo_options_ok zero_rndis_state_def scripted_lib_def
        demo_addresses_nonzero)
qed

text \<open>
  C27: Against a device that never answers, \<open>dhcp_discover\<close> gives up: it returns -1 with the lease
  untouched after one DISCOVER and exactly 50 receives.
\<close>

theorem dhcp_gives_up:
  assumes "length rb = RNDIS_BUF_SIZE" "length eb = ETH_BUF_SIZE" "length (mac_addr st) = 6"
    and "\<And>bs. lib_bulk_out lib (ep_out usb) bs USB_BULK_TIMEOUT d = ((None, n1 bs), d1)"
    and "\<And>d. snd (fst (lib_bulk_in lib (ep_in usb) RNDIS_BUF_SIZE 200 d)) = []"
  shows "dhcp_discover fuel lib usb rb eb st lease d =
    Inr (-1, lease, ((\<lambda>d. snd (lib_bulk_in lib (ep_in usb) RNDIS_BUF_SIZE 200 d)) ^^ 50) d1)"
proof -
  obtain eth1 where e1: "dhcp_build_discover eb ETH_BUF_SIZE (mac_addr st) dhcp_xid = Inr (300, eth1)"
    "length eth1 = ETH_BUF_SIZE" using discover_frame [OF assms(3,2)] .
  obtain rb1 where s1: "send_frame lib usb rb eth1 300 d = Inr (0, rb1, d1)" "length rb1 = RNDIS_BUF_SIZE"
    using send_frame_eq [OF assms(1), of 300 eth1, OF _ _ assms(4)] assms(1) e1(2) by (simp add: min_absorb2)
  show ?thesis
    using e1 s1 wait_silent [OF assms(5) s1(2), of "offer_message dhcp_xid" fuel 50
        "\<lparr>offered_addr = 0, server_addr = 0, offer_opts = zero_opts\<rparr>" d1]
    by (auto simp: dhcp_discover_def elim!: runs_toE)
qed

text \<open>A device without a DHCP server, which counts the receives.\<close>

definition silent_lib :: "nat libusb" where
  "silent_lib = \<lparr>lib_control_out = (\<lambda>_ _ _ _ bs d. (Inr (length bs), d)),
     lib_control_in = (\<lambda>_ _ _ _ _ d. (Inl ERROR_TIMEOUT, d)),
     lib_bulk_out = (\<lambda>_ bs _ d. ((None, length bs), d)),
     lib_bulk_in = (\<lambda>_ _ _ d. ((Some ERROR_TIMEOUT, []), d + 1))\<rparr>"

lemma dhcp_gives_up_witness:
  "dhcp_discover 1 silent_lib zero_usb_device (replicate 32768 0) (replicate 2048 0) zero_rndis_state empty_lease 0 =
     Inr (-1, empty_lease, 50)"
proof -
  have "((\<lambda>d :: nat. d + 1) ^^ k) 0 = k" for k by (induction k) auto
  then show ?thesis
    using dhcp_gives_up [of "replicate 32768 0" "replicate 2048 0" zero_rndis_state silent_lib zero_usb_device
        0 length 0 1 empty_lease]
    by (simp add: silent_lib_def zero_rndis_state_def)
qed

text \<open>
  Whatever a device puts into a transfer whose messages satisfy \<open>answer_fits\<close>, both loops of
  \<open>dhcp_discover\<close> end inside the receive buffer, and an accepted lease consists of five dotted
  addresses of at most 15 characters, only digits and dots: the strings that the session passes to
  the shell commands of \<open>utun.c\<close>.
\<close>

theorem dhcp_answers_safe:
  assumes "len + 8 < 2 ^ 32" "len \<le> length buf" "no_wrap buf len" "len < fuel"
    and "\<And>k. k + 8 \<le> len \<Longrightarrow> answer_fits (drop k buf) (u32_at buf (k + 4))"
  shows "runs_to (rndis_walk (offer_message xid) fuel buf (word_of_nat len) 0 s) (\<lambda>_. True) \<and>
    runs_to (rndis_walk (ack_message xid) fuel buf (word_of_nat len) 0 (o0, lease0))
      (\<lambda>(found, o', lease). lease = lease0 \<or> dotted_lease lease)"
proof
  show "runs_to (rndis_walk (offer_message xid) fuel buf (word_of_nat len) 0 s) (\<lambda>_. True)"
    using assms by (intro runs_to_mono [OF offer.walk_runs [of len buf fuel xid s]]) auto
  show "runs_to (rndis_walk (ack_message xid) fuel buf (word_of_nat len) 0 (o0, lease0))
      (\<lambda>(found, o', lease). lease = lease0 \<or> dotted_lease lease)"
    using assms
    by (intro runs_to_mono [OF ack.walk_runs [where ?lease0.0 = lease0 and s = "(o0, lease0)" and buf = buf
        and len = len and fuel = fuel]]) auto
qed

lemma dhcp_answers_safe_witness:
  "runs_to (rndis_walk (ack_message dhcp_xid) 9 (replicate 32768 0) (word_of_nat 8) 0 (zero_opts, empty_lease))
      (\<lambda>(found, o', lease). lease = empty_lease \<or> dotted_lease lease)"
proof -
  have "answer_fits (drop k (replicate 32768 0)) (u32_at (replicate 32768 0) (k + 4))" if "k + 8 \<le> 8" for k
    using that by (simp add: answer_fits_def rndis_parse_data_packet_def u32_at_def u32_of_def)
  moreover have "no_wrap (replicate 32768 0) 8"
    by (simp add: no_wrap_def u32_at_def u32_of_def)
  ultimately show ?thesis
    using dhcp_answers_safe [of 8 "replicate 32768 0" 9 dhcp_xid _ zero_opts empty_lease] by simp
qed

section \<open>What the code does not check\<close>

text \<open>
  The loop that looks for the message type reads an option's data without comparing its length with
  what is left: an option code and a length at the very end make it read behind the options.
\<close>

lemma scan_reads_past_options:
  "scan_options True [53, 1] 2 0 (0, 0) = Inl Oob_Read"
  by (simp add: scan_options.simps [of True "[53, 1]"] rd_u8_def)

text \<open>
  The length check counts 20 bytes of IP header whatever \<open>ip_hl\<close> says.  With 60 bytes the options
  start behind the end of a 282-byte frame and \<open>opts_len\<close> wraps around below zero; the scan then
  runs through the rest of the receive buffer and past its end.
\<close>

lemma opts_len_underflows:
  "match_dhcp (replicate 12 7 @ [8, 0, 0x4F] @ replicate 8 0 @ [17] @ replicate 52 0 @ [0, 68] @
      replicate 8 0 @ be32 dhcp_xid @ replicate 228 0 @ be32 DHCP_MAGIC_COOKIE @ rest) 282 dhcp_xid =
    Inr (Some (322, 2 ^ 64 - 40, 0))"
  by (simp add: match_dhcp_def dec_eth_hdr_def rd_u8_def nth_append be16_at_def be32_at_Cons
      be32_at_be32 [of _ "[]", simplified] u32_at_def u32_of_def Let_def size_sub_wraps del: DHCP_MAGIC_COOKIE_def)

lemma scan_zeros_overruns:
  "list_all (\<lambda>b. b = 0) opts \<Longrightarrow> length opts < opts_len \<Longrightarrow> i \<le> length opts \<Longrightarrow>
     scan_options ws opts opts_len i st = Inl Oob_Read"
proof (induction "length opts - i" arbitrary: i)
  case 0
  obtain mt sv where "st = (mt, sv)" by (cases st)
  with 0 show ?case by (simp add: scan_options.simps [of ws opts] rd_u8_def)
next
  case (Suc n)
  obtain mt sv where "st = (mt, sv)" by (cases st)
  with Suc show ?case by (simp add: scan_options.simps [of ws opts] rd_u8_def list_all_length)
qed

end
