(* ===== verification/Arp.thy ===== *)
theory Arp
  imports Proto_Rndis
begin

text \<open>
  \<^verbatim>\<open>src/arp.c\<close>: answering ARP requests for the host's address and the gratuitous announcement.
  Addresses are \<open>in_addr\<close> values as the code holds them: four bytes of the packet read as a
  little-endian \<open>uint32_t\<close>.
\<close>

record arp_packet =
  arp_hw_type :: u16
  arp_proto_type :: u16
  arp_hw_len :: byte
  arp_proto_len :: byte
  arp_opcode :: u16
  arp_sender_mac :: buffer
  arp_sender_ip :: u32
  arp_target_mac :: buffer
  arp_target_ip :: u32

definition sizeof_arp_packet :: nat where [simp]: "sizeof_arp_packet = 28"

definition enc_arp_packet :: "arp_packet \<Rightarrow> buffer" where
  "enc_arp_packet a = be16 (arp_hw_type a) @ be16 (arp_proto_type a) @ [arp_hw_len a, arp_proto_len a] @
     be16 (arp_opcode a) @ arp_sender_mac a @ le32 (arp_sender_ip a) @ arp_target_mac a @
     le32 (arp_target_ip a)"

definition dec_arp_packet :: "buffer \<Rightarrow> arp_packet" where
  "dec_arp_packet s = \<lparr>arp_hw_type = be16_at s 0, arp_proto_type = be16_at s 2, arp_hw_len = s ! 4,
     arp_proto_len = s ! 5, arp_opcode = be16_at s 6, arp_sender_mac = take 6 (drop 8 s),
     arp_sender_ip = u32_at s 14, arp_target_mac = take 6 (drop 18 s), arp_target_ip = u32_at s 24\<rparr>"

definition arp_build_reply ::
    "buffer \<Rightarrow> nat \<Rightarrow> buffer \<Rightarrow> u32 \<Rightarrow> buffer \<Rightarrow> u32 \<Rightarrow> (int \<times> buffer) run" where
  "arp_build_reply buf buf_size our_mac our_ip their_mac their_ip =
     (let tot = sizeof_eth_hdr + sizeof_arp_packet
      in if buf_size < tot then Inr (-1, buf)
         else bindR (rd_bytes their_mac 0 6) (\<lambda>theirs.
              bindR (rd_bytes our_mac 0 6) (\<lambda>ours.
              let eth = \<lparr>eth_dst = theirs, eth_src = ours, eth_ethertype = ARP_ETHERTYPE\<rparr>;
                  arp = \<lparr>arp_hw_type = ARP_HW_ETHERNET, arp_proto_type = 0x0800, arp_hw_len = 6,
                    arp_proto_len = 4, arp_opcode = ARP_OP_REPLY, arp_sender_mac = ours,
                    arp_sender_ip = our_ip, arp_target_mac = theirs, arp_target_ip = their_ip\<rparr>
              in bindR (wr_bytes buf 0 (enc_eth_hdr eth @ enc_arp_packet arp)) (\<lambda>buf'.
                 Inr (c_int tot, buf')))))"

definition arp_handle_request ::
    "buffer \<Rightarrow> nat \<Rightarrow> buffer \<Rightarrow> nat \<Rightarrow> buffer \<Rightarrow> u32 \<Rightarrow> (int \<times> buffer) run" where
  "arp_handle_request frame frame_len reply_buf reply_buf_size our_mac our_ip =
     (if frame_len < sizeof_eth_hdr + sizeof_arp_packet then Inr (0, reply_buf)
      else bindR (rd_bytes frame 0 sizeof_eth_hdr) (\<lambda>e.
        if eth_ethertype (dec_eth_hdr e) \<noteq> ARP_ETHERTYPE then Inr (0, reply_buf)
        else bindR (rd_bytes frame sizeof_eth_hdr sizeof_arp_packet) (\<lambda>s.
          let arp = dec_arp_packet s
          in if arp_opcode arp = ARP_OP_REQUEST \<and> arp_target_ip arp = our_ip
             then arp_build_reply reply_buf reply_buf_size our_mac our_ip
                    (arp_sender_mac arp) (arp_sender_ip arp)
             else Inr (0, reply_buf))))"

definition gratuitous_frame :: "buffer \<Rightarrow> u32 \<Rightarrow> buffer" where
  "gratuitous_frame mac ip_n =
     enc_eth_hdr \<lparr>eth_dst = replicate 6 0xFF, eth_src = mac, eth_ethertype = ARP_ETHERTYPE\<rparr> @
     enc_arp_packet \<lparr>arp_hw_type = ARP_HW_ETHERNET, arp_proto_type = 0x0800, arp_hw_len = 6,
       arp_proto_len = 4, arp_opcode = ARP_OP_REPLY, arp_sender_mac = mac, arp_sender_ip = ip_n,
       arp_target_mac = replicate 6 0xFF, arp_target_ip = ip_n\<rparr>"

text \<open>\<open>garp_eth\<close> and \<open>garp_rndis\<close> are the uninitialised stack buffers.\<close>

definition arp_send_gratuitous ::
    "'d libusb \<Rightarrow> usb_device \<Rightarrow> buffer \<Rightarrow> buffer \<Rightarrow> buffer \<Rightarrow> u32 \<Rightarrow> 'd \<Rightarrow> 'd run" where
  "arp_send_gratuitous lib usb garp_eth garp_rndis mac ip_n d =
     bindR (rd_bytes mac 0 6) (\<lambda>m.
     bindR (wr_bytes garp_eth 0 (gratuitous_frame m ip_n)) (\<lambda>eth.
     bindR (rndis_build_data_packet garp_rndis RNDIS_BUF_SIZE eth
              (sizeof_eth_hdr + sizeof_arp_packet)) (\<lambda>(grndis_len, rndis).
     if grndis_len > 0 then
       bindR (usb_send_bulk lib usb rndis (nat grndis_len) d) (\<lambda>(_, d'). Inr d')
     else Inr d)))"

section \<open>The packets\<close>

lemma length_enc_arp_packet [simp]:
  "length (arp_sender_mac a) = 6 \<Longrightarrow> length (arp_target_mac a) = 6 \<Longrightarrow> length (enc_arp_packet a) = 28"
  by (simp add: enc_arp_packet_def)

lemma dec_enc_arp_packet:
  "length (arp_sender_mac a) = 6 \<Longrightarrow> length (arp_target_mac a) = 6 \<Longrightarrow>
     dec_arp_packet (enc_arp_packet a @ s) = a"
  by (simp add: dec_arp_packet_def enc_arp_packet_def nth_append be16_at_Cons u32_at_Cons)

lemma length_gratuitous_frame [simp]: "length mac = 6 \<Longrightarrow> length (gratuitous_frame mac ip) = 42"
  by (simp add: gratuitous_frame_def)

text \<open>What the code looks at when it decides whether a frame is a request for the host.\<close>

definition asks_for :: "u32 \<Rightarrow> buffer \<Rightarrow> nat \<Rightarrow> bool" where
  "asks_for ip frame len \<longleftrightarrow> 42 \<le> len \<and> be16_at frame 12 = ARP_ETHERTYPE \<and>
     be16_at frame 20 = ARP_OP_REQUEST \<and> u32_at frame 38 = ip"

definition reply_to :: "buffer \<Rightarrow> u32 \<Rightarrow> buffer \<Rightarrow> buffer" where
  "reply_to mac ip frame =
     (let theirs = take 6 (drop 22 frame); their_ip = u32_at frame 28
      in enc_eth_hdr \<lparr>eth_dst = theirs, eth_src = mac, eth_ethertype = ARP_ETHERTYPE\<rparr> @
         enc_arp_packet \<lparr>arp_hw_type = ARP_HW_ETHERNET, arp_proto_type = 0x0800, arp_hw_len = 6,
           arp_proto_len = 4, arp_opcode = ARP_OP_REPLY, arp_sender_mac = mac, arp_sender_ip = ip,
           arp_target_mac = theirs, arp_target_ip = their_ip\<rparr>)"

lemma arp_handle_request_eq:
  assumes "len \<le> length frame" "42 \<le> cap" "cap \<le> length buf" "length mac = 6"
  shows "arp_handle_request frame len buf cap mac ip =
    Inr (if asks_for ip frame len then (42, reply_to mac ip frame @ drop 42 buf) else (0, buf))"
proof (cases "42 \<le> len")
  case False
  then show ?thesis by (simp add: arp_handle_request_def asks_for_def)
next
  case True
  let ?s = "take 28 (drop 14 frame)"
  have dec: "eth_ethertype (dec_eth_hdr (take 14 frame)) = be16_at frame 12"
      "arp_opcode (dec_arp_packet ?s) = be16_at frame 20" "arp_target_ip (dec_arp_packet ?s) = u32_at frame 38"
      "arp_sender_ip (dec_arp_packet ?s) = u32_at frame 28"
      "arp_sender_mac (dec_arp_packet ?s) = take 6 (drop 22 frame)"
    using True assms(1)
    by (simp_all add: dec_eth_hdr_def dec_arp_packet_def be16_at_take be16_at_drop u32_at_take
        u32_at_drop drop_take add.commute)
  with True assms show ?thesis
    by (simp add: arp_handle_request_def asks_for_def reply_to_def arp_build_reply_def Let_def)
qed

section \<open>Properties\<close>

text \<open>
  C32: The host answers an ARP frame exactly where it is a request for its own address: the reply is a
  42-byte frame to the requester that binds the host's address to its MAC, and it is itself no
  request, for any address, so two hosts running this code cannot answer each other for ever.
  Every other frame, also a truncated one, gives 0 and leaves the reply buffer alone.
\<close>

theorem arp_answers_exactly_own_requests:
  assumes "len \<le> length frame" "42 \<le> cap" "cap \<le> length buf" "length mac = 6"
  shows "runs_to (arp_handle_request frame len buf cap mac ip) (\<lambda>(r, buf').
    if asks_for ip frame len then
      r = 42 \<and> length buf' = length buf \<and>
      dec_eth_hdr buf' = \<lparr>eth_dst = take 6 (drop 22 frame), eth_src = mac, eth_ethertype = ARP_ETHERTYPE\<rparr> \<and>
      dec_arp_packet (drop 14 buf') =
        \<lparr>arp_hw_type = ARP_HW_ETHERNET, arp_proto_type = 0x0800, arp_hw_len = 6, arp_proto_len = 4,
         arp_opcode = ARP_OP_REPLY, arp_sender_mac = mac, arp_sender_ip = ip,
         arp_target_mac = take 6 (drop 22 frame), arp_target_ip = u32_at frame 28\<rparr> \<and>
      (\<forall>other. \<not> asks_for other buf' 42)
    else r = 0 \<and> buf' = buf)"
proof (cases "asks_for ip frame len")
  case False
  with assms show ?thesis by (simp add: arp_handle_request_eq)
next
  case True
  then have "42 \<le> length frame" using assms(1) by (simp add: asks_for_def)
  then have six: "length (take 6 (drop 22 frame)) = 6" by simp
  let ?rep = "reply_to mac ip frame @ drop 42 buf"
  have "dec_eth_hdr ?rep =
      \<lparr>eth_dst = take 6 (drop 22 frame), eth_src = mac, eth_ethertype = ARP_ETHERTYPE\<rparr>"
    using six assms(4) by (simp add: reply_to_def Let_def dec_enc_eth_hdr)
  moreover have arp: "dec_arp_packet (drop 14 ?rep) =
        \<lparr>arp_hw_type = ARP_HW_ETHERNET, arp_proto_type = 0x0800, arp_hw_len = 6, arp_proto_len = 4,
         arp_opcode = ARP_OP_REPLY, arp_sender_mac = mac, arp_sender_ip = ip,
         arp_target_mac = take 6 (drop 22 frame), arp_target_ip = u32_at frame 28\<rparr>"
    using six assms(4) by (simp add: reply_to_def Let_def dec_enc_arp_packet)
  moreover have "length ?rep = length buf"
    using six assms by (simp add: reply_to_def Let_def)
  moreover have "be16_at ?rep 20 = ARP_OP_REPLY"
    using arp be16_at_drop [of 14 6 ?rep] assms(2,3) \<open>length ?rep = length buf\<close>
    by (simp add: dec_arp_packet_def del: drop_append length_append)
  then have "\<not> asks_for other ?rep 42" for other by (simp add: asks_for_def)
  ultimately show ?thesis using True assms by (simp add: arp_handle_request_eq)
qed

lemma arp_answers_exactly_own_requests_witness:
  "asks_for 0x0500000A (replicate 12 7 @ [8, 6, 0, 1, 8, 0, 6, 4, 0, 1] @ replicate 16 3 @ [10, 0, 0, 5]) 42 \<and>
   runs_to (arp_handle_request
       (replicate 12 7 @ [8, 6, 0, 1, 8, 0, 6, 4, 0, 1] @ replicate 16 3 @ [10, 0, 0, 5]) 42
       (replicate 2048 0) 2048 (replicate 6 1) 0x0500000A) (\<lambda>(r, buf'). r = 42)"
proof -
  let ?f = "replicate 12 7 @ [8, 6, 0, 1, 8, 0, 6, 4, 0, 1] @ replicate 16 3 @ [10, 0, 0, 5] :: buffer"
  have asks: "asks_for 0x0500000A ?f 42"
    by (simp add: asks_for_def be16_at_def u32_at_def u32_of_def nth_append)
  have "runs_to (arp_handle_request ?f 42 (replicate 2048 0) 2048 (replicate 6 1) 0x0500000A)
      (\<lambda>(r, buf'). r = 42)"
    by (rule runs_to_mono,
        rule arp_answers_exactly_own_requests [where len = 42 and frame = ?f and cap = 2048])
      (simp_all only: asks if_True prod.case split_beta, simp_all)
  with asks show ?thesis by simp
qed

text \<open>
  \<open>arp_send_gratuitous\<close> puts exactly one message on the bulk OUT endpoint, whatever the transfer
  answers: the data message whose frame is the broadcast announcement of the host's address.
\<close>

theorem gratuitous_arp_sent:
  assumes "length garp_eth = ETH_BUF_SIZE" "length garp_rndis = RNDIS_BUF_SIZE" "length mac = 6"
  shows "arp_send_gratuitous lib usb garp_eth garp_rndis mac ip_n d =
    Inr (snd (lib_bulk_out lib (ep_out usb) (wire_message (gratuitous_frame mac ip_n, []))
      USB_BULK_TIMEOUT d))"
  using assms
  by (simp add: arp_send_gratuitous_def build_data_packet_eq usb_send_bulk_def wire_message_def
      split: prod.splits option.splits)

text \<open>A recording device: the environment state is the list of bulk payloads sent to it.\<close>

definition recording_lib :: "buffer list libusb" where
  "recording_lib = scripted_lib\<lparr>lib_bulk_out := (\<lambda>_ bs _ d. ((None, length bs), d @ [bs]))\<rparr>"

lemma gratuitous_arp_sent_witness:
  "arp_send_gratuitous recording_lib zero_usb_device (replicate 2048 0) (replicate 32768 0)
     (replicate 6 1) 0x0500000A [] =
   Inr [wire_message (gratuitous_frame (replicate 6 1) 0x0500000A, [])]"
  using gratuitous_arp_sent [of "replicate 2048 0" "replicate 32768 0" "replicate 6 1" recording_lib
      zero_usb_device "0x0500000A" "[]"]
  by (simp add: recording_lib_def)

end
