(* ===== verification/Frame.thy ===== *)
theory Frame
  imports Net_Types
begin

text \<open>
  \<^verbatim>\<open>src/frame.c\<close>: between packets of the utun interface (a 4-byte address family in network
  order, then the IP packet) and Ethernet frames.  \<open>AF_INET6\<close> is 30 on macOS.
\<close>

definition AF_INET :: u32 where [simp]: "AF_INET = 2"
definition AF_INET6 :: u32 where [simp]: "AF_INET6 = 30"

text \<open>The ethertype: by the address family, otherwise by the IP version nibble of the first byte.\<close>

definition ip_ethertype :: "u32 \<Rightarrow> byte \<Rightarrow> u16 option" where
  "ip_ethertype af first =
     (if af = AF_INET then Some 0x0800
      else if af = AF_INET6 then Some 0x86DD
      else let ver = drop_bit 4 first
           in if ver = 4 then Some 0x0800 else if ver = 6 then Some 0x86DD else None)"

text \<open>On the last error path the two addresses have already been written.\<close>

definition frame_ip_to_eth ::
    "buffer \<Rightarrow> nat \<Rightarrow> buffer \<Rightarrow> nat \<Rightarrow> buffer \<Rightarrow> buffer \<Rightarrow> (int \<times> buffer) run" where
  "frame_ip_to_eth utun_pkt utun_len eth_buf eth_buf_size src_mac gateway_mac =
     (if utun_len < 5 then Inr (-1, eth_buf)
      else bindR (rd_bytes utun_pkt 0 4) (\<lambda>af_raw.
        let af = be32_at af_raw 0; ip_len = utun_len - 4; tot = sizeof_eth_hdr + ip_len
        in if tot > eth_buf_size then Inr (-1, eth_buf)
           else bindR (rd_bytes gateway_mac 0 6) (\<lambda>dst.
                bindR (wr_bytes eth_buf 0 dst) (\<lambda>buf1.
                bindR (rd_bytes src_mac 0 6) (\<lambda>src.
                bindR (wr_bytes buf1 6 src) (\<lambda>buf2.
                bindR (rd_u8 utun_pkt 4) (\<lambda>first.
                case ip_ethertype af first of
                  None \<Rightarrow> Inr (-1, buf2)
                | Some ethertype \<Rightarrow>
                    bindR (wr_bytes buf2 12 (be16 ethertype)) (\<lambda>buf3.
                    bindR (rd_bytes utun_pkt 4 ip_len) (\<lambda>ip.
                    bindR (wr_bytes buf3 sizeof_eth_hdr ip) (\<lambda>buf4.
                    Inr (c_int tot, buf4)))))))))))"

definition utun_af :: "u16 \<Rightarrow> u32 option" where
  "utun_af ethertype =
     (if ethertype = 0x0800 then Some AF_INET
      else if ethertype = 0x86DD then Some AF_INET6 else None)"

definition frame_eth_to_utun ::
    "buffer \<Rightarrow> nat \<Rightarrow> buffer \<Rightarrow> nat \<Rightarrow> (int \<times> buffer) run" where
  "frame_eth_to_utun eth_frame eth_len utun_buf utun_buf_size =
     (if eth_len < sizeof_eth_hdr then Inr (-1, utun_buf)
      else let ip_len = eth_len - sizeof_eth_hdr; tot = 4 + ip_len
           in if tot > utun_buf_size then Inr (-1, utun_buf)
              else bindR (rd_bytes eth_frame 0 sizeof_eth_hdr) (\<lambda>s.
                case utun_af (eth_ethertype (dec_eth_hdr s)) of
                  None \<Rightarrow> Inr (-1, utun_buf)
                | Some af \<Rightarrow>
                    bindR (wr_bytes utun_buf 0 (be32 af)) (\<lambda>buf1.
                    bindR (rd_bytes eth_frame sizeof_eth_hdr ip_len) (\<lambda>ip.
                    bindR (wr_bytes buf1 4 ip) (\<lambda>buf2.
                    Inr (c_int tot, buf2))))))"

section \<open>What the conversions compute\<close>

lemma take_be16_header: "length s = 14 \<Longrightarrow> take 12 s @ drop 12 s = s"
  by simp

lemma ip_to_eth_runs:
  assumes "5 \<le> utun_len" "utun_len \<le> length pkt" "utun_len + 10 \<le> cap" "cap \<le> length eth_buf"
    and "cap < 2 ^ 31" "length src = 6" "length gw = 6" "ip_ethertype (be32_at pkt 0) (pkt ! 4) = Some t"
  shows "frame_ip_to_eth pkt utun_len eth_buf cap src gw =
    Inr (int (utun_len + 10), enc_eth_hdr \<lparr>eth_dst = gw, eth_src = src, eth_ethertype = t\<rparr> @
      take (utun_len - 4) (drop 4 pkt) @ drop (utun_len + 10) eth_buf)"
proof -
  have "be32_at (take 4 pkt) 0 = be32_at pkt 0" by (simp add: be32_at_def)
  moreover have "c_int (14 + (utun_len - 4)) = int (utun_len + 10)" using assms by (subst c_int_small) auto
  moreover have "10 + utun_len = utun_len + 10" "14 + (utun_len - 4) = utun_len + 10" using assms by auto
  ultimately show ?thesis
    using assms
    by (simp add: frame_ip_to_eth_def Let_def rd_u8_def enc_eth_hdr_def add.commute)
qed

lemma eth_to_utun_runs:
  assumes "14 \<le> eth_len" "eth_len \<le> length frame" "eth_len \<le> cap + 10" "cap \<le> length utun_buf"
    and "cap < 2 ^ 31" "utun_af (be16_at frame 12) = Some af"
  shows "frame_eth_to_utun frame eth_len utun_buf cap =
    Inr (int (eth_len - 10), be32 af @ take (eth_len - 14) (drop 14 frame) @ drop (eth_len - 10) utun_buf)"
proof -
  have "eth_ethertype (dec_eth_hdr (take 14 frame)) = be16_at frame 12"
    by (simp add: dec_eth_hdr_def be16_at_def)
  moreover have "c_int (4 + (eth_len - 14)) = int (eth_len - 10)" using assms by (subst c_int_small) auto
  moreover have "4 + (eth_len - 14) = eth_len - 10" using assms by auto
  ultimately show ?thesis
    using assms by (simp add: frame_eth_to_utun_def Let_def)
qed

lemma eth_to_utun_refused:
  assumes "\<not> (14 \<le> n \<and> n \<le> cap + 10 \<and> be16_at frame 12 \<in> {0x0800, 0x86DD})" "n \<le> length frame"
  shows "frame_eth_to_utun frame n utun_buf cap = Inr (-1, utun_buf)"
proof (cases "14 \<le> n \<and> n \<le> cap + 10")
  case False
  then show ?thesis by (auto simp: frame_eth_to_utun_def Let_def)
next
  case True
  have "eth_ethertype (dec_eth_hdr (take 14 frame)) = be16_at frame 12"
    by (simp add: dec_eth_hdr_def be16_at_def)
  with True assms show ?thesis
    by (auto simp: frame_eth_to_utun_def Let_def utun_af_def)
qed

lemma frame_eth_to_utun_safe:
  assumes "eth_len \<le> length frame" "cap \<le> length utun_buf"
  shows "runs_to (frame_eth_to_utun frame eth_len utun_buf cap) (\<lambda>(r, buf').
    length buf' = length utun_buf \<and> (buf' = utun_buf \<and> r = -1 \<or> r = c_int (eth_len - 10) \<and> 14 \<le> eth_len \<and> eth_len - 10 \<le> cap))"
  using assms
  by (auto simp: frame_eth_to_utun_def Let_def run_simps split: option.splits)

lemma frame_ip_to_eth_safe:
  assumes "utun_len \<le> length pkt" "cap \<le> length eth_buf" "6 \<le> length src" "6 \<le> length gw"
  shows "runs_to (frame_ip_to_eth pkt utun_len eth_buf cap src gw) (\<lambda>(r, buf').
    length buf' = length eth_buf \<and> drop 12 buf' = drop 12 eth_buf \<and> r = -1 \<or>
    length buf' = length eth_buf \<and> r = c_int (utun_len + 10) \<and> utun_len + 10 \<le> cap \<and> 5 \<le> utun_len)"
  using assms
  by (auto simp: frame_ip_to_eth_def Let_def run_simps add.commute split: option.splits)

section \<open>Properties\<close>

text \<open>
  C33: A packet of the host reaches the phone and comes back unchanged: \<open>frame_eth_to_utun\<close> undoes
  \<open>frame_ip_to_eth\<close> on every packet whose address family is \<open>AF_INET\<close> or \<open>AF_INET6\<close>.
\<close>

theorem utun_eth_roundtrip:
  assumes "5 \<le> utun_len" "utun_len \<le> length pkt" "be32_at pkt 0 \<in> {AF_INET, AF_INET6}"
    and "utun_len + 10 \<le> eth_size" "eth_size \<le> length eth_buf" "eth_size < 2 ^ 31"
    and "length src = 6" "length gw = 6"
    and "utun_len \<le> utun_size" "utun_size \<le> length utun_buf" "utun_size < 2 ^ 31"
  shows "runs_to (frame_ip_to_eth pkt utun_len eth_buf eth_size src gw) (\<lambda>(r, eth').
    r = int (utun_len + 10) \<and> take 6 eth' = gw \<and> take 6 (drop 6 eth') = src \<and>
    runs_to (frame_eth_to_utun eth' (nat r) utun_buf utun_size) (\<lambda>(r', utun').
      r' = int utun_len \<and> take utun_len utun' = take utun_len pkt))"
proof -
  obtain t af where t: "ip_ethertype (be32_at pkt 0) (pkt ! 4) = Some t" "utun_af t = Some af"
      "af = be32_at pkt 0"
    using assms(3) by (auto simp: ip_ethertype_def utun_af_def)
  have head: "be32 (be32_at pkt 0) = take 4 pkt"
    using assms(1,2) by (intro be32_of_at) simp
  let ?h = "enc_eth_hdr \<lparr>eth_dst = gw, eth_src = src, eth_ethertype = t\<rparr>"
  let ?eth = "?h @ take (utun_len - 4) (drop 4 pkt) @ drop (utun_len + 10) eth_buf"
  have built: "frame_ip_to_eth pkt utun_len eth_buf eth_size src gw = Inr (int (utun_len + 10), ?eth)"
    using assms t(1) by (intro ip_to_eth_runs) auto
  have bck: "frame_eth_to_utun ?eth (utun_len + 10) utun_buf utun_size =
      Inr (int (utun_len + 10 - 10), be32 af @ take (utun_len + 10 - 14) (drop 14 ?eth) @
        drop (utun_len + 10 - 10) utun_buf)"
    using assms t(2) by (intro eth_to_utun_runs) (auto simp: enc_eth_hdr_def)
  have "take 4 pkt @ take (utun_len - 4) (drop 4 pkt) = take utun_len pkt"
    using take_add [of 4 "utun_len - 4" pkt] assms(1) by simp
  then show ?thesis
    unfolding built using bck assms(1,2,7,8) t(3) head
    by (simp add: enc_eth_hdr_def nat_add_distrib)
qed

lemma utun_eth_roundtrip_witness:
  "runs_to (frame_ip_to_eth [0, 0, 0, 2, 0x45, 7] 6 (replicate 64 0) 64 (replicate 6 1) (replicate 6 9))
     (\<lambda>(r, eth'). r = 16 \<and>
       runs_to (frame_eth_to_utun eth' (nat r) (replicate 64 0) 64) (\<lambda>(r', utun').
         r' = 6 \<and> take 6 utun' = [0, 0, 0, 2, 0x45, 7]))"
  using utun_eth_roundtrip [of 6 "[0, 0, 0, 2, 0x45, 7]" 64 "replicate 64 0" "replicate 6 1"
      "replicate 6 9" 64 "replicate 64 0"]
  by (auto simp: be32_at_def u32_of_def elim!: runs_to_mono)

text \<open>
  In the other direction a non-empty IP packet in an Ethernet frame goes through the utun form
  and back with its ethertype and payload unchanged and only the two addresses replaced.
\<close>

theorem eth_utun_roundtrip:
  assumes "15 \<le> eth_len" "eth_len \<le> length frame" "be16_at frame 12 \<in> {0x0800, 0x86DD}"
    and "eth_len \<le> utun_size + 10" "utun_size \<le> length utun_buf" "utun_size < 2 ^ 31"
    and "eth_len \<le> eth_size" "eth_size \<le> length eth_buf" "eth_size < 2 ^ 31"
    and "length src = 6" "length gw = 6"
  shows "runs_to (frame_eth_to_utun frame eth_len utun_buf utun_size) (\<lambda>(r, utun').
    r = int (eth_len - 10) \<and>
    runs_to (frame_ip_to_eth utun' (nat r) eth_buf eth_size src gw) (\<lambda>(r', eth').
      r' = int eth_len \<and> take eth_len eth' = gw @ src @ take (eth_len - 12) (drop 12 frame)))"
proof -
  obtain af where af: "utun_af (be16_at frame 12) = Some af"
      "\<And>b. ip_ethertype af b = Some (be16_at frame 12)"
    using assms(3) by (auto simp: ip_ethertype_def utun_af_def)
  let ?ip = "take (eth_len - 14) (drop 14 frame)"
  let ?utun = "be32 af @ ?ip @ drop (eth_len - 10) utun_buf"
  have there: "frame_eth_to_utun frame eth_len utun_buf utun_size = Inr (int (eth_len - 10), ?utun)"
    using assms af(1) by (intro eth_to_utun_runs) auto
  have bck: "frame_ip_to_eth ?utun (eth_len - 10) eth_buf eth_size src gw =
    Inr (int (eth_len - 10 + 10),
      enc_eth_hdr \<lparr>eth_dst = gw, eth_src = src, eth_ethertype = be16_at frame 12\<rparr> @
      take (eth_len - 10 - 4) (drop 4 ?utun) @ drop (eth_len - 10 + 10) eth_buf)"
    using assms af(2) by (intro ip_to_eth_runs) auto
  have be: "be16 (be16_at frame 12) = take 2 (drop 12 frame)"
    using be16_of_at [of "drop 12 frame"] assms(1,2) by (simp add: be16_at_drop)
  have e: "eth_len - 12 = 2 + (eth_len - 14)" using assms(1) by simp
  have tail: "take (eth_len - 12) (drop 12 frame) = take 2 (drop 12 frame) @ ?ip"
    unfolding e take_add by simp
  have payload: "take (eth_len - 10 - 4) (drop 4 ?utun) = ?ip" using assms(1,2) by simp
  have sizes: "nat (int (eth_len - 10)) = eth_len - 10" "eth_len - 10 + 10 = eth_len" using assms(1) by auto
  show ?thesis
    unfolding there runs_to_Inr prod.case sizes(1) bck payload
    using assms(1,2,10,11) by (simp add: enc_eth_hdr_def be tail)
qed

lemma eth_utun_roundtrip_witness:
  "runs_to (frame_eth_to_utun (replicate 12 3 @ [0x08, 0x00, 0x45, 7]) 16 (replicate 64 0) 64)
     (\<lambda>(r, utun'). r = 6 \<and>
       runs_to (frame_ip_to_eth utun' (nat r) (replicate 64 0) 64 (replicate 6 1) (replicate 6 9))
         (\<lambda>(r', eth'). r' = 16 \<and>
           take 16 eth' = replicate 6 9 @ replicate 6 1 @ [0x08, 0x00, 0x45, 7]))"
  using eth_utun_roundtrip [of 16 "replicate 12 3 @ [0x08, 0x00, 0x45, 7]" 64 "replicate 64 0" 64
      "replicate 64 0" "replicate 6 1" "replicate 6 9"]
  by (auto simp: be16_at_def nth_append elim!: runs_to_mono)

text \<open>
  C34: For every received frame \<open>frame_eth_to_utun\<close> stays inside both buffers, and it produces a packet
  exactly where the frame has a whole header, the packet fits and the ethertype is IPv4 or IPv6:
  ARP and every other protocol are dropped with -1 and the output buffer untouched.
\<close>

theorem eth_to_utun_total:
  assumes "eth_len \<le> length frame" "cap \<le> length utun_buf" "cap < 2 ^ 31"
  shows "runs_to (frame_eth_to_utun frame eth_len utun_buf cap) (\<lambda>(r, buf').
    length buf' = length utun_buf \<and>
    (if 14 \<le> eth_len \<and> eth_len \<le> cap + 10 \<and> be16_at frame 12 \<in> {0x0800, 0x86DD}
     then r = int (eth_len - 10) else r = -1 \<and> buf' = utun_buf))"
proof (cases "14 \<le> eth_len \<and> eth_len \<le> cap + 10 \<and> be16_at frame 12 \<in> {0x0800, 0x86DD}")
  case False
  with assms eth_to_utun_refused [OF False, of utun_buf] show ?thesis by simp
next
  case True
  then obtain af where "utun_af (be16_at frame 12) = Some af" by (auto simp: utun_af_def)
  with True assms eth_to_utun_runs [of eth_len frame cap utun_buf af] show ?thesis by auto
qed

lemma eth_to_utun_total_witness:
  "runs_to (frame_eth_to_utun (replicate 12 3 @ [0x08, 0x06] @ replicate 28 0) 42 (replicate 64 0) 64)
     (\<lambda>(r, buf'). r = -1 \<and> buf' = replicate 64 0)"
  using eth_to_utun_total [of 42 "replicate 12 3 @ [0x08, 0x06] @ replicate 28 0" 64 "replicate 64 0"]
  by (auto simp: be16_at_def nth_append elim!: runs_to_mono)

end
