(* ===== verification/Bridge_Rx.thy ===== *)
theory Bridge_Rx
  imports Arp Frame
begin

text \<open>
  The receive half of the bridge in \<^verbatim>\<open>src/main.c\<close>: \<open>process_rx_frame\<close>, its callback, and the completion
  of an asynchronous bulk IN transfer.  What the functions do to the outside (heap, libusb, utun) is
  appended to a list of effects; an answer of the outside may depend on everything done so far.
  The frame callback is an interpretation of the contract \<open>frame_consumer\<close> of the message loop.
\<close>

section \<open>Data\<close>

datatype rx_effect =
    Malloc_Buf | Free_Buf | Alloc_Xfer | Free_Xfer
  | Submit_Arp byte buffer bool
  | Write_Tun buffer
  | Clear_Halt byte
  | Resubmit bool

text \<open>Answers of the allocator and of libusb, and the uninitialised buffers.\<close>

record host =
  malloc_ok :: "rx_effect list \<Rightarrow> bool"
  alloc_ok :: "rx_effect list \<Rightarrow> bool"
  submit_ok :: "rx_effect list \<Rightarrow> bool"
  abuf0 :: buffer
  txbuf0 :: buffer
  tbuf0 :: buffer

text \<open>The fields of \<open>bridge_ctx\<close> that the receive path uses; \<open>effects\<close> is what it has done so far.\<close>

record rx_ctx =
  our_mac :: buffer
  gw_mac :: buffer
  gw_mac_learned :: bool
  our_ip_n :: u32
  running :: bool
  disconnected :: bool
  rx_pkts :: "64 word"
  rx_bytes :: "64 word"
  active_rx :: int
  effects :: "rx_effect list"

type_synonym wrapper = "buffer \<Rightarrow> nat \<Rightarrow> buffer \<Rightarrow> nat \<Rightarrow> (int \<times> buffer) run"

section \<open>Operations\<close>

definition emit :: "rx_effect list \<Rightarrow> rx_ctx \<Rightarrow> rx_ctx" where
  "emit es ctx = ctx\<lparr>effects := effects ctx @ es\<rparr>"

definition learn_gateway :: "buffer \<Rightarrow> nat \<Rightarrow> rx_ctx \<Rightarrow> rx_ctx run" where
  "learn_gateway frame frame_len ctx =
     (if \<not> gw_mac_learned ctx \<and> frame_len \<ge> sizeof_eth_hdr then
        bindR (rd_bytes frame 0 sizeof_eth_hdr) (\<lambda>s.
          let src = eth_src (dec_eth_hdr s)
          in if src ! 0 \<noteq> 0xFF then Inr (ctx\<lparr>gw_mac := src, gw_mac_learned := True\<rparr>) else Inr ctx)
      else Inr ctx)"

text \<open>Sending an ARP reply of \<open>arp_len\<close> bytes in \<open>abuf\<close>: every failure frees what was allocated.\<close>

definition send_arp_reply :: "host \<Rightarrow> wrapper \<Rightarrow> byte \<Rightarrow> buffer \<Rightarrow> nat \<Rightarrow> rx_ctx \<Rightarrow> rx_ctx run" where
  "send_arp_reply host wrap ep abuf arp_len ctx =
     (if \<not> malloc_ok host (effects ctx) then Inr ctx
      else let ctx1 = emit [Malloc_Buf] ctx
           in bindR (wrap abuf arp_len (txbuf0 host) RNDIS_BUF_SIZE) (\<lambda>(rlen, txbuf).
              if rlen > 0 then
                if alloc_ok host (effects ctx1) then
                  let ctx2 = emit [Alloc_Xfer] ctx1
                  in bindR (rd_bytes txbuf 0 (nat rlen)) (\<lambda>payload.
                     if submit_ok host (effects ctx2) then Inr (emit [Submit_Arp ep payload True] ctx2)
                     else Inr (emit [Submit_Arp ep payload False, Free_Xfer, Free_Buf] ctx2))
                else Inr (emit [Free_Buf] ctx1)
              else Inr (emit [Free_Buf] ctx1)))"

definition arp_tx_complete :: "rx_ctx \<Rightarrow> rx_ctx" where
  "arp_tx_complete ctx = emit [Free_Buf, Free_Xfer] ctx"

definition inject_packet :: "host \<Rightarrow> buffer \<Rightarrow> nat \<Rightarrow> rx_ctx \<Rightarrow> rx_ctx run" where
  "inject_packet host frame frame_len ctx =
     bindR (frame_eth_to_utun frame frame_len (tbuf0 host) (ETH_BUF_SIZE + 256)) (\<lambda>(tlen, tbuf).
       if tlen > 0 then
         bindR (rd_bytes tbuf 0 (nat tlen)) (\<lambda>pkt.
         Inr (emit [Write_Tun pkt] (ctx\<lparr>rx_pkts := rx_pkts ctx + 1,
                                        rx_bytes := rx_bytes ctx + word_of_nat frame_len\<rparr>)))
       else Inr ctx)"

definition process_rx_frame ::
    "host \<Rightarrow> wrapper \<Rightarrow> byte \<Rightarrow> buffer \<Rightarrow> nat \<Rightarrow> rx_ctx \<Rightarrow> rx_ctx run" where
  "process_rx_frame host wrap ep frame frame_len ctx0 =
     bindR (learn_gateway frame frame_len ctx0) (\<lambda>ctx.
       if frame_len \<ge> sizeof_eth_hdr then
         bindR (rd_bytes frame 0 sizeof_eth_hdr) (\<lambda>s.
           if eth_ethertype (dec_eth_hdr s) = ARP_ETHERTYPE then
             bindR (arp_handle_request frame frame_len (abuf0 host) ETH_BUF_SIZE (our_mac ctx) (our_ip_n ctx))
               (\<lambda>(arp_len, abuf).
                 if arp_len > 0 then send_arp_reply host wrap ep abuf (nat arp_len) ctx else Inr ctx)
           else inject_packet host frame frame_len ctx)
       else inject_packet host frame frame_len ctx)"

datatype xfer_status =
  COMPLETED | ERROR | TIMED_OUT | CANCELLED | STALL | NO_DEVICE | OVERFLOW

text \<open>
  \<open>rx_complete\<close>: the result says whether the transfer is in flight again.  \<open>unwrap\<close> is the driver's
  \<open>unwrap_data\<close>, \<open>g_running\<close> the global flag the signal handler clears.
\<close>

definition rx_complete ::
    "host \<Rightarrow> wrapper \<Rightarrow> usb_device \<Rightarrow>
     (buffer \<Rightarrow> nat \<Rightarrow> (buffer \<Rightarrow> nat \<Rightarrow> rx_ctx \<Rightarrow> rx_ctx run) \<Rightarrow> rx_ctx \<Rightarrow> (int \<times> rx_ctx) run) \<Rightarrow>
     bool \<Rightarrow> xfer_status \<Rightarrow> int \<Rightarrow> buffer \<Rightarrow> rx_ctx \<Rightarrow> (bool \<times> rx_ctx) run" where
  "rx_complete host wrap usb unwrap g_running status actual_length buf ctx =
     (let resubmit = (\<lambda>ctx.
        if running ctx \<and> g_running then
          if submit_ok host (effects ctx) then Inr (True, emit [Resubmit True] ctx)
          else Inr (False, (emit [Resubmit False] ctx)\<lparr>active_rx := active_rx ctx - 1\<rparr>)
        else Inr (False, ctx\<lparr>active_rx := active_rx ctx - 1\<rparr>))
      in case status of
        COMPLETED \<Rightarrow>
          if actual_length > 0 then
            bindR (unwrap buf (nat actual_length) (process_rx_frame host wrap (ep_out usb)) ctx)
              (\<lambda>(_, ctx'). resubmit ctx')
          else resubmit ctx
      | NO_DEVICE \<Rightarrow>
          Inr (False, ctx\<lparr>disconnected := True, running := False, active_rx := active_rx ctx - 1\<rparr>)
      | CANCELLED \<Rightarrow> Inr (False, ctx\<lparr>active_rx := active_rx ctx - 1\<rparr>)
      | STALL \<Rightarrow> resubmit (emit [Clear_Halt (ep_in usb)] ctx)
      | _ \<Rightarrow> resubmit ctx)"

section \<open>Who owns the reply buffers\<close>

definition bufs_held :: "rx_effect list \<Rightarrow> int" where
  "bufs_held es = sum_list (map (\<lambda>e. case e of Malloc_Buf \<Rightarrow> 1 | Free_Buf \<Rightarrow> -1 | _ \<Rightarrow> 0) es)"

definition xfers_held :: "rx_effect list \<Rightarrow> int" where
  "xfers_held es = sum_list (map (\<lambda>e. case e of Alloc_Xfer \<Rightarrow> 1 | Free_Xfer \<Rightarrow> -1 | _ \<Rightarrow> 0) es)"

definition submitted :: "rx_effect list \<Rightarrow> int" where
  "submitted es = sum_list (map (\<lambda>e. case e of Submit_Arp _ _ True \<Rightarrow> 1 | _ \<Rightarrow> 0) es)"

text \<open>Every buffer and transfer that was not freed belongs to a submitted reply.\<close>

definition balanced :: "rx_effect list \<Rightarrow> bool" where
  "balanced es \<longleftrightarrow> bufs_held es = submitted es \<and> xfers_held es = submitted es"

lemma held_append:
  "bufs_held (es @ fs) = bufs_held es + bufs_held fs" "xfers_held (es @ fs) = xfers_held es + xfers_held fs"
  "submitted (es @ fs) = submitted es + submitted fs"
  by (simp_all add: bufs_held_def xfers_held_def submitted_def)

lemma balanced_append: "balanced es \<Longrightarrow> balanced fs \<Longrightarrow> balanced (es @ fs)"
  by (simp add: balanced_def held_append)

lemma balanced_cases [simp]:
  "balanced []" "balanced [Malloc_Buf, Free_Buf]" "balanced [Malloc_Buf, Alloc_Xfer, Submit_Arp ep p True]"
  "balanced [Malloc_Buf, Alloc_Xfer, Submit_Arp ep p False, Free_Xfer, Free_Buf]" "balanced [Write_Tun p]"
  "balanced [Clear_Halt ep]" "balanced [Resubmit b]"
  by (simp_all add: balanced_def bufs_held_def xfers_held_def submitted_def)

definition wf_host :: "host \<Rightarrow> bool" where
  "wf_host host \<longleftrightarrow> length (abuf0 host) = ETH_BUF_SIZE \<and> length (txbuf0 host) = RNDIS_BUF_SIZE \<and>
     length (tbuf0 host) = ETH_BUF_SIZE + 256"

definition wf_rx :: "rx_ctx \<Rightarrow> bool" where
  "wf_rx ctx \<longleftrightarrow> length (our_mac ctx) = 6 \<and> length (gw_mac ctx) = 6 \<and> balanced (effects ctx)"

section \<open>What a frame does\<close>

definition after_learning :: "buffer \<Rightarrow> nat \<Rightarrow> rx_ctx \<Rightarrow> rx_ctx" where
  "after_learning frame n ctx =
     (if \<not> gw_mac_learned ctx \<and> 14 \<le> n \<and> frame ! 6 \<noteq> 0xFF
      then ctx\<lparr>gw_mac := take 6 (drop 6 frame), gw_mac_learned := True\<rparr> else ctx)"

lemma learn_gateway_eq:
  "n \<le> length frame \<Longrightarrow> learn_gateway frame n ctx = Inr (after_learning frame n ctx)"
  by (auto simp: learn_gateway_def after_learning_def dec_eth_hdr_def Let_def drop_take)

definition reply_effects :: "host \<Rightarrow> byte \<Rightarrow> buffer \<Rightarrow> rx_effect list \<Rightarrow> rx_effect list" where
  "reply_effects host ep frame es =
     (if \<not> malloc_ok host es then []
      else if \<not> alloc_ok host (es @ [Malloc_Buf]) then [Malloc_Buf, Free_Buf]
      else if submit_ok host (es @ [Malloc_Buf, Alloc_Xfer])
      then [Malloc_Buf, Alloc_Xfer, Submit_Arp ep (wire_message (frame, [])) True]
      else [Malloc_Buf, Alloc_Xfer, Submit_Arp ep (wire_message (frame, [])) False, Free_Xfer, Free_Buf])"

lemma balanced_reply: "balanced (reply_effects host ep frame es)"
  by (simp add: reply_effects_def)

lemma send_arp_reply_eq:
  assumes "wf_host host" "length abuf = ETH_BUF_SIZE"
  shows "send_arp_reply host rndis_drv_wrap_frame ep abuf 42 ctx =
    Inr (emit (reply_effects host ep (take 42 abuf) (effects ctx)) ctx)"
proof -
  have "rndis_drv_wrap_frame abuf 42 (txbuf0 host) RNDIS_BUF_SIZE =
      Inr (86, wire_message (take 42 abuf, []) @ drop 86 (txbuf0 host))"
    using assms
    by (simp add: rndis_drv_wrap_frame_def build_data_packet_eq wf_host_def wire_message_def)
  then show ?thesis
    using assms by (simp add: send_arp_reply_def reply_effects_def emit_def Let_def)
qed

definition tun_packet :: "buffer \<Rightarrow> nat \<Rightarrow> buffer" where
  "tun_packet frame n = be32 (if be16_at frame 12 = 0x0800 then AF_INET else AF_INET6) @
     take (n - 14) (drop 14 frame)"

definition deliverable :: "buffer \<Rightarrow> nat \<Rightarrow> bool" where
  "deliverable frame n \<longleftrightarrow> 14 \<le> n \<and> n \<le> 2314 \<and> be16_at frame 12 \<in> {0x0800, 0x86DD}"

definition after_delivery :: "buffer \<Rightarrow> nat \<Rightarrow> rx_ctx \<Rightarrow> rx_ctx" where
  "after_delivery frame n ctx = emit [Write_Tun (tun_packet frame n)]
     (ctx\<lparr>rx_pkts := rx_pkts ctx + 1, rx_bytes := rx_bytes ctx + word_of_nat n\<rparr>)"

lemma inject_packet_eq:
  assumes "wf_host host" "n \<le> length frame"
  shows "inject_packet host frame n ctx =
    Inr (if deliverable frame n then after_delivery frame n ctx else ctx)"
proof (cases "deliverable frame n")
  case True
  then obtain af where af: "utun_af (be16_at frame 12) = Some af"
      "af = (if be16_at frame 12 = 0x0800 then AF_INET else AF_INET6)"
    by (auto simp: deliverable_def utun_af_def)
  have "frame_eth_to_utun frame n (tbuf0 host) (ETH_BUF_SIZE + 256) =
      Inr (int (n - 10), tun_packet frame n @ drop (n - 10) (tbuf0 host))"
    using eth_to_utun_runs [of n frame 2304 "tbuf0 host" af] True assms af
    by (simp add: deliverable_def wf_host_def tun_packet_def)
  moreover have "length (tun_packet frame n) = n - 10" "0 < n - 10"
    using True assms(2) by (auto simp: tun_packet_def deliverable_def)
  ultimately show ?thesis
    using True by (simp add: inject_packet_def after_delivery_def)
next
  case False
  then have "frame_eth_to_utun frame n (tbuf0 host) 2304 = Inr (-1, tbuf0 host)"
    using assms(2) by (intro eth_to_utun_refused) (auto simp: deliverable_def)
  with False show ?thesis by (simp add: inject_packet_def)
qed

text \<open>The frame as one case distinction.\<close>

definition after_frame :: "host \<Rightarrow> byte \<Rightarrow> buffer \<Rightarrow> nat \<Rightarrow> rx_ctx \<Rightarrow> rx_ctx" where
  "after_frame host ep frame n ctx0 =
     (let ctx = after_learning frame n ctx0
      in if asks_for (our_ip_n ctx) frame n
         then emit (reply_effects host ep (reply_to (our_mac ctx) (our_ip_n ctx) frame) (effects ctx)) ctx
         else if deliverable frame n then after_delivery frame n ctx else ctx)"

lemma length_reply_to: "length mac = 6 \<Longrightarrow> 42 \<le> length frame \<Longrightarrow> length (reply_to mac ip frame) = 42"
  by (simp add: reply_to_def Let_def)

lemma process_rx_frame_eq:
  assumes "wf_host host" "n \<le> length frame" "length (our_mac ctx0) = 6"
  shows "process_rx_frame host rndis_drv_wrap_frame ep frame n ctx0 = Inr (after_frame host ep frame n ctx0)"
proof -
  let ?ctx = "after_learning frame n ctx0"
  have mac: "our_mac ?ctx = our_mac ctx0" by (simp add: after_learning_def)
  have ty: "eth_ethertype (dec_eth_hdr (take 14 frame)) = be16_at frame 12"
    by (simp add: dec_eth_hdr_def be16_at_take)
  show ?thesis
  proof (cases "14 \<le> n \<and> be16_at frame 12 = ARP_ETHERTYPE")
    case True
    then have nd: "\<not> deliverable frame n" by (simp add: deliverable_def)
    have arp: "arp_handle_request frame n (abuf0 host) ETH_BUF_SIZE (our_mac ?ctx) (our_ip_n ?ctx) =
      Inr (if asks_for (our_ip_n ?ctx) frame n
           then (42, reply_to (our_mac ?ctx) (our_ip_n ?ctx) frame @ drop 42 (abuf0 host))
           else (0, abuf0 host))"
      using assms mac by (intro arp_handle_request_eq) (simp_all add: wf_host_def)
    show ?thesis
    proof (cases "asks_for (our_ip_n ?ctx) frame n")
      case asks: True
      then have len: "length (reply_to (our_mac ?ctx) (our_ip_n ?ctx) frame) = 42"
        using assms mac by (intro length_reply_to) (auto simp: asks_for_def)
      have "send_arp_reply host rndis_drv_wrap_frame ep
          (reply_to (our_mac ?ctx) (our_ip_n ?ctx) frame @ drop 42 (abuf0 host)) 42 ?ctx =
          Inr (emit (reply_effects host ep (reply_to (our_mac ?ctx) (our_ip_n ?ctx) frame) (effects ?ctx)) ?ctx)"
        using send_arp_reply_eq [OF assms(1)] len assms(1) by (simp add: wf_host_def)
      then show ?thesis
        using True asks arp assms(2) ty
        by (simp add: process_rx_frame_def learn_gateway_eq after_frame_def Let_def)
    next
      case False
      then show ?thesis
        using True arp nd assms(2) ty
        by (simp add: process_rx_frame_def learn_gateway_eq after_frame_def Let_def)
    qed
  next
    case False
    then have "\<not> asks_for (our_ip_n ?ctx) frame n" by (auto simp: asks_for_def)
    then show ?thesis
      using False assms ty inject_packet_eq [OF assms(1,2), of ?ctx]
      by (auto simp: process_rx_frame_def learn_gateway_eq after_frame_def Let_def)
  qed
qed

lemma wf_after_frame:
  assumes "wf_rx ctx" "n \<le> length frame"
  shows "wf_rx (after_frame host ep frame n ctx)"
  using assms balanced_append balanced_reply balanced_cases
  by (auto simp: wf_rx_def after_frame_def after_learning_def after_delivery_def emit_def Let_def)

lemma after_frame_keeps [simp]:
  "active_rx (after_frame host ep frame n ctx) = active_rx ctx"
  "running (after_frame host ep frame n ctx) = running ctx"
  "our_mac (after_frame host ep frame n ctx) = our_mac ctx"
  by (simp_all add: after_frame_def after_learning_def after_delivery_def emit_def Let_def)

lemma process_rx_frame_runs:
  assumes "wf_host host" "wf_rx ctx" "n \<le> length frame"
  shows "runs_to (process_rx_frame host rndis_drv_wrap_frame ep frame n ctx)
    (\<lambda>c. wf_rx c \<and> active_rx c = active_rx ctx \<and> running c = running ctx)"
  using assms process_rx_frame_eq [of host n frame ctx ep] wf_after_frame
  by (simp add: wf_rx_def)

text \<open>The frame callback keeps the contract of the message loop.\<close>

interpretation rx: frame_consumer "process_rx_frame host rndis_drv_wrap_frame ep" 
    "\<lambda>ctx. wf_host host \<and> wf_rx ctx \<and> active_rx ctx = a \<and> running ctx = r" for host ep a r
  by unfold_locales (auto intro: runs_to_mono process_rx_frame_runs)

section \<open>Properties\<close>

text \<open>
  C12: Whatever a received frame contains and wherever the allocator or libusb fails, handling it
  touches no memory outside its buffers and leaks nothing: every buffer and transfer allocated for
  an ARP reply either belongs to a submitted transfer, whose completion frees both, or was freed.
  At most one packet or reply leaves the host for it.
\<close>

theorem rx_frame_leaks_nothing:
  assumes "wf_host host" "wf_rx ctx" "n \<le> length frame"
  shows "runs_to (process_rx_frame host rndis_drv_wrap_frame ep frame n ctx) (\<lambda>ctx'.
    bufs_held (effects ctx') = submitted (effects ctx') \<and>
    xfers_held (effects ctx') = submitted (effects ctx') \<and>
    (\<exists>es. effects ctx' = effects ctx @ es \<and>
       length (List.filter (\<lambda>e. case e of Submit_Arp _ _ _ \<Rightarrow> True | Write_Tun _ \<Rightarrow> True | _ \<Rightarrow> False) es) \<le> 1))"
proof -
  have "our_mac (after_learning frame n ctx) = our_mac ctx" "effects (after_learning frame n ctx) = effects ctx"
    by (simp_all add: after_learning_def)
  then show ?thesis
    using process_rx_frame_eq [OF assms(1,3), of ctx ep] wf_after_frame [OF assms(2,3), of host ep] assms(2)
    by (simp add: wf_rx_def balanced_def)
      (auto simp: after_frame_def after_delivery_def emit_def reply_effects_def Let_def)
qed

text \<open>Uninitialised memory and a host where everything succeeds.\<close>

definition demo_host :: host where
  "demo_host = \<lparr>malloc_ok = (\<lambda>_. True), alloc_ok = (\<lambda>_. True), submit_ok = (\<lambda>_. True),
     abuf0 = replicate 2048 0xAA, txbuf0 = replicate 32768 0xAA, tbuf0 = replicate 2304 0xAA\<rparr>"

definition demo_rx :: rx_ctx where
  "demo_rx = \<lparr>our_mac = [2, 66, 172, 17, 0, 1], gw_mac = replicate 6 0xFF, gw_mac_learned = False,
     our_ip_n = u32_of 192 168 42 100, running = True, disconnected = False, rx_pkts = 0, rx_bytes = 0,
     active_rx = 16, effects = []\<rparr>"

lemma demo_rx_wf: "wf_host demo_host" "wf_rx demo_rx"
  by (simp_all add: wf_host_def wf_rx_def demo_host_def demo_rx_def)

lemma rx_frame_leaks_nothing_witness:
  "runs_to (process_rx_frame (demo_host\<lparr>submit_ok := \<lambda>_. False\<rparr>) rndis_drv_wrap_frame 1
      (replicate 12 3 @ [8, 6] @ replicate 28 0) 42 demo_rx) (\<lambda>ctx'. bufs_held (effects ctx') = submitted (effects ctx'))"
proof -
  have "wf_host (demo_host\<lparr>submit_ok := \<lambda>_. False\<rparr>)" by (simp add: wf_host_def demo_host_def)
  from rx_frame_leaks_nothing [OF this demo_rx_wf(2), of 42 "replicate 12 3 @ [8, 6] @ replicate 28 0" 1]
  show ?thesis by (auto elim: runs_to_mono)
qed

text \<open>
  The gateway address is learned once: the first frame with a complete header whose source does
  not begin with \<open>0xFF\<close> sets it, and no later frame changes it.
\<close>

theorem gateway_learned_once:
  assumes "wf_host host" "length (our_mac ctx) = 6" "n \<le> length frame"
  shows "runs_to (process_rx_frame host rndis_drv_wrap_frame ep frame n ctx) (\<lambda>ctx'.
    if gw_mac_learned ctx then gw_mac ctx' = gw_mac ctx \<and> gw_mac_learned ctx'
    else if 14 \<le> n \<and> frame ! 6 \<noteq> 0xFF then gw_mac ctx' = take 6 (drop 6 frame) \<and> gw_mac_learned ctx'
    else gw_mac ctx' = gw_mac ctx \<and> \<not> gw_mac_learned ctx')"
  using process_rx_frame_eq [OF assms(1,3,2), of ep]
  by (auto simp: after_frame_def after_learning_def after_delivery_def emit_def Let_def)

lemma gateway_learned_once_witness:
  "runs_to (process_rx_frame demo_host rndis_drv_wrap_frame 1 (replicate 6 9 @ [2, 3, 4, 5, 6, 7, 8, 0]) 14 demo_rx)
     (\<lambda>ctx'. gw_mac ctx' = [2, 3, 4, 5, 6, 7])"
  using gateway_learned_once [OF demo_rx_wf(1), of demo_rx 14 "replicate 6 9 @ [2, 3, 4, 5, 6, 7, 8, 0]" 1]
  by (auto simp: demo_rx_def nth_append elim!: runs_to_mono)

lemma after_frame_prefix:
  "after_frame host ep (f @ rest) (length f) ctx = after_frame host ep f (length f) ctx"
proof -
  have l: "after_learning (f @ rest) (length f) ctx = after_learning f (length f) ctx"
    by (simp add: after_learning_def nth_append)
  have a: "asks_for ip (f @ rest) (length f) = asks_for ip f (length f)" for ip
    by (auto simp: asks_for_def be16_at_def u32_at_def nth_append)
  have r: "reply_to mac ip (f @ rest) = reply_to mac ip f" if "asks_for ip' f (length f)" for mac ip ip'
    using that by (simp add: reply_to_def asks_for_def u32_at_def nth_append)
  have d: "deliverable (f @ rest) (length f) = deliverable f (length f)"
    by (auto simp: deliverable_def be16_at_def nth_append)
  have t: "tun_packet (f @ rest) (length f) = tun_packet f (length f)" if "deliverable f (length f)"
    using that by (simp add: tun_packet_def deliverable_def be16_at_def nth_append)
  show ?thesis
    unfolding after_frame_def l Let_def a d by (auto simp: r after_delivery_def t)
qed

lemma after_learning_update:
  "after_learning f n (c\<lparr>rx_pkts := p, rx_bytes := b, effects := es\<rparr>) =
     (after_learning f n c)\<lparr>rx_pkts := p, rx_bytes := b, effects := es\<rparr>"
  by (simp add: after_learning_def)

lemma fold_learning_update:
  "fold (\<lambda>f c. after_learning f (length f) c) fs (c\<lparr>rx_pkts := p, rx_bytes := b, effects := es\<rparr>) =
     (fold (\<lambda>f c. after_learning f (length f) c) fs c)\<lparr>rx_pkts := p, rx_bytes := b, effects := es\<rparr>"
  by (induction fs arbitrary: c) (simp_all add: after_learning_update)

lemma fold_deliveries:
  assumes "\<forall>f \<in> set fs. deliverable f (length f)"
  shows "fold (\<lambda>f c. after_frame host ep f (length f) c) fs ctx =
    (let c = fold (\<lambda>f c. after_learning f (length f) c) fs ctx
     in c\<lparr>rx_pkts := rx_pkts ctx + word_of_nat (length fs),
          rx_bytes := rx_bytes ctx + word_of_nat (sum_list (map length fs)),
          effects := effects ctx @ map (\<lambda>f. Write_Tun (tun_packet f (length f))) fs\<rparr>)"
  using assms
proof (induction fs arbitrary: ctx)
  case (Cons f fs)
  have "\<not> asks_for ip f (length f)" for ip
    using Cons.prems by (auto simp: asks_for_def deliverable_def)
  then have step: "after_frame host ep f (length f) ctx =
      (after_learning f (length f) ctx)\<lparr>rx_pkts := rx_pkts ctx + 1, rx_bytes := rx_bytes ctx + word_of_nat (length f),
        effects := effects ctx @ [Write_Tun (tun_packet f (length f))]\<rparr>"
    using Cons.prems by (simp add: after_frame_def after_delivery_def emit_def Let_def after_learning_def)
  show ?case
    using Cons.IH [of "after_frame host ep f (length f) ctx"] Cons.prems
    by (simp add: step fold_learning_update Let_def add.assoc)
qed simp

text \<open>
  C14: Nothing is lost or reordered on the way from the phone: a transfer that carries IP frames of
  the data messages \<open>ms\<close> makes the receive path write exactly their packets to utun, in order, each
  with its address family in front, and the counters grow by their number and their sizes.
\<close>

theorem rx_transfer_delivers:
  assumes "wf_host host" "length (our_mac ctx) = 6"
    and "\<forall>(f, p) \<in> set ms. deliverable f (length f)"
    and "length (concat (map wire_message ms)) + 8 < 2 ^ 32" "length ms < fuel"
  shows "runs_to (rndis_drv_unwrap_data fuel (concat (map wire_message ms) @ rest)
      (length (concat (map wire_message ms))) (process_rx_frame host rndis_drv_wrap_frame ep) ctx)
    (\<lambda>(r, ctx'). r = 0 \<and>
      effects ctx' = effects ctx @ map (\<lambda>(f, p). Write_Tun (tun_packet f (length f))) ms \<and>
      rx_pkts ctx' = rx_pkts ctx + word_of_nat (length ms) \<and>
      rx_bytes ctx' = rx_bytes ctx + word_of_nat (\<Sum>(f, p)\<leftarrow>ms. length f))"
proof -
  let ?g = "\<lambda>f c. after_frame host ep f (length f) c"
  have ok: "deliverable f (length f)" if "(f, p) \<in> set ms" for f p
    using assms(3) that by auto
  have "rndis_drv_unwrap_data fuel (concat (map wire_message ms) @ rest)
      (length (concat (map wire_message ms))) (process_rx_frame host rndis_drv_wrap_frame ep) ctx =
      Inr (0, fold ?g (map fst ms) ctx)"
  proof (rule unwrap_data_wire [where Q = "\<lambda>c. length (our_mac c) = 6"])
    show "process_rx_frame host rndis_drv_wrap_frame ep (f @ rest) (length f) c = Inr (?g f c)"
      if "(f, p) \<in> set ms" "length (our_mac c) = 6" for f p rest c
      using process_rx_frame_eq [OF assms(1), of "length f" "f @ rest" c ep] that
      by (simp add: after_frame_prefix)
    show "length (our_mac (?g f c)) = 6" if "length (our_mac c) = 6" for f c
      using that by (simp add: after_frame_def after_learning_def after_delivery_def emit_def Let_def)
  qed (use assms ok in \<open>auto simp: deliverable_def\<close>)
  moreover have "\<forall>f \<in> set (map fst ms). deliverable f (length f)" using ok by auto
  ultimately show ?thesis
    using fold_deliveries [of "map fst ms" host ep ctx]
    by (simp add: Let_def comp_def case_prod_beta')
qed

lemma rx_transfer_delivers_witness:
  "runs_to (rndis_drv_unwrap_data 9 (concat (map wire_message
        [(replicate 12 2 @ [8, 0, 0x45], [0]), (replicate 12 2 @ [0x86, 0xDD, 0x60], [])]) @ [])
      119 (process_rx_frame demo_host rndis_drv_wrap_frame 1) demo_rx)
    (\<lambda>(r, ctx'). r = 0 \<and> effects ctx' = [Write_Tun [0, 0, 0, 2, 0x45], Write_Tun [0, 0, 0, 30, 0x60]])"
  using rx_transfer_delivers [OF demo_rx_wf(1), of demo_rx
      "[(replicate 12 2 @ [8, 0, 0x45], [0]), (replicate 12 2 @ [0x86, 0xDD, 0x60], [])]" 9 "[]" 1]
  by (auto simp: demo_rx_def deliverable_def tun_packet_def be16_at_def nth_append be32_def le32_def
      elim!: runs_to_mono)

lemma rx_complete_runs:
  assumes "wf_host host" "wf_rx ctx"
    and "nat len \<le> length buf" "nat len + 8 < 2 ^ 32" "no_wrap buf (nat len)" "nat len < fuel"
  shows "runs_to (rx_complete host rndis_drv_wrap_frame usb (rndis_drv_unwrap_data fuel) g_running
      status len buf ctx) (\<lambda>(again, ctx'). wf_rx ctx' \<and>
    active_rx ctx' = active_rx ctx - (if again then 0 else 1) \<and>
    (again \<longrightarrow> g_running \<and> running ctx) \<and> (running ctx' \<longrightarrow> running ctx) \<and>
    (status = NO_DEVICE \<longrightarrow> \<not> again \<and> disconnected ctx' \<and> \<not> running ctx') \<and>
    (status = CANCELLED \<longrightarrow> \<not> again))"
proof -
  let ?resubmit = "\<lambda>c. if running c \<and> g_running then
      if submit_ok host (effects c) then Inr (True, emit [Resubmit True] c)
      else Inr (False, (emit [Resubmit False] c)\<lparr>active_rx := active_rx c - 1\<rparr>)
    else Inr (False, c\<lparr>active_rx := active_rx c - 1\<rparr>)"
  let ?ok = "\<lambda>(again, c'). wf_rx c' \<and> active_rx c' = active_rx ctx - (if again then 0 else 1) \<and>
    (again \<longrightarrow> g_running \<and> running ctx) \<and> (running c' \<longrightarrow> running ctx)"
  have again: "runs_to (?resubmit c) ?ok"
    if "wf_rx c" "active_rx c = active_rx ctx" "running c = running ctx" for c
    using that by (auto simp: wf_rx_def emit_def balanced_append)
  have "wf_rx (emit [Clear_Halt e] ctx)" for e
    using assms(2) by (simp add: wf_rx_def emit_def balanced_append)
  moreover have "runs_to (rndis_drv_unwrap_data fuel buf (nat len)
      (process_rx_frame host rndis_drv_wrap_frame (ep_out usb)) ctx)
      (\<lambda>(r, c). wf_rx c \<and> active_rx c = active_rx ctx \<and> running c = running ctx)"
    using rx.unwrap_data_runs [of host ctx "active_rx ctx" "running ctx" "nat len" buf fuel "ep_out usb"] assms
    by (auto elim: runs_to_mono)
  ultimately show ?thesis
    using assms(2) again [of ctx] again [of "emit [Clear_Halt (ep_in usb)] ctx"]
    by (cases status)
      (auto simp: rx_complete_def runs_to_bind Let_def wf_rx_def emit_def balanced_append elim!: runs_to_mono)
qed



end
