(* ===== verification/Rx_Pool.thy ===== *)
theory Rx_Pool
  imports Bridge_Rx
begin

text \<open>
  The thread \<open>usb_to_tun\<close> of \<^verbatim>\<open>src/main.c\<close>: it fills the pool of receive transfers, handles libusb events
  until the session ends, cancels what is in flight, drains the completions and frees the pool.  The
  completion callbacks run inside \<open>libusb_handle_events_timeout\<close>, on the transfers in flight; the
  receive callback is the one that the thread gives to \<open>libusb_fill_bulk_transfer\<close>.
\<close>

section \<open>Data\<close>

definition NUM_RX_XFERS :: nat where [simp]: "NUM_RX_XFERS = 16"

text \<open>A call carries the slot of the pool; an allocation or submission also its result.\<close>

datatype pool_call =
    Rx_Malloc nat bool | Rx_Alloc nat bool | Rx_Submit nat bool
  | Rx_Cancel nat | Tx_Cancel nat | Rx_Free_Buf nat | Rx_Free_Xfer nat

text \<open>Whether a slot has its transfer and its buffer.\<close>

record rx_slot =
  has_xfer :: bool
  has_buf :: bool

record pool_env =
  pool_malloc_ok :: "nat \<Rightarrow> bool"
  pool_alloc_ok :: "nat \<Rightarrow> bool"
  pool_submit_ok :: "nat \<Rightarrow> bool"

text \<open>
  What can happen while events are handled: a receive transfer completes, with \<open>g_running\<close> as the
  callback finds it, a transmit transfer completes, the transmit thread submits one, the main thread
  stops the session.
\<close>

datatype pool_event =
  Rx_Completes nat bool xfer_status int buffer | Tx_Completes xfer_status | Tx_Submitted | Stopped

text \<open>\<open>p_flight\<close> are the slots of the receive transfers that libusb holds.\<close>

record pool_state =
  p_ctx :: rx_ctx
  p_active_tx :: int
  p_flight :: "nat set"

text \<open>One round of the event loop: the global flag, the events handled, the result.\<close>

record event_round =
  round_g_running :: bool
  round_events :: "pool_event list"
  round_error :: "libusb_error option"

record drain_round =
  drain_time :: int
  drain_events :: "pool_event list"

type_synonym rx_callback = "bool \<Rightarrow> xfer_status \<Rightarrow> int \<Rightarrow> buffer \<Rightarrow> rx_ctx \<Rightarrow> (bool \<times> rx_ctx) run"

section \<open>Operations\<close>

definition fill_slot :: "pool_env \<Rightarrow> nat \<Rightarrow> rx_slot \<times> int \<times> pool_call list" where
  "fill_slot env i =
     (let b = pool_malloc_ok env i; x = pool_alloc_ok env i
      in if \<not> b \<or> \<not> x then
           (\<lparr>has_xfer = False, has_buf = False\<rparr>, 0,
            [Rx_Malloc i b, Rx_Alloc i x] @ (if b then [Rx_Free_Buf i] else []) @
            (if x then [Rx_Free_Xfer i] else []))
         else (\<lparr>has_xfer = True, has_buf = True\<rparr>, if pool_submit_ok env i then 1 else 0,
               [Rx_Malloc i True, Rx_Alloc i True, Rx_Submit i (pool_submit_ok env i)]))"

fun fill_pool :: "pool_env \<Rightarrow> nat list \<Rightarrow> rx_slot list \<times> int \<times> pool_call list" where
  "fill_pool env [] = ([], 0, [])"
| "fill_pool env (i # is) =
     (let (slot, n, calls) = fill_slot env i; (slots, m, calls') = fill_pool env is
      in (slot # slots, n + m, calls @ calls'))"

text \<open>\<open>tx_complete\<close>, on the fields that the receive thread shares.\<close>

definition tx_completes :: "byte \<Rightarrow> xfer_status \<Rightarrow> pool_state \<Rightarrow> pool_state" where
  "tx_completes ep status s =
     (let ctx = p_ctx s;
          ctx' = (if status = NO_DEVICE then ctx\<lparr>disconnected := True, running := False\<rparr>
                  else if status = STALL then emit [Clear_Halt ep] ctx else ctx)
      in s\<lparr>p_ctx := ctx', p_active_tx := p_active_tx s - 1\<rparr>)"

text \<open>An event of a transfer that libusb does not hold cannot happen and is skipped.\<close>

fun handle_event :: "rx_callback \<Rightarrow> byte \<Rightarrow> pool_event \<Rightarrow> pool_state \<Rightarrow> pool_state run" where
  "handle_event cb ep (Rx_Completes i g status len buf) s =
     (if i \<in> p_flight s then
        bindR (cb g status len buf (p_ctx s)) (\<lambda>(again, ctx).
          Inr (s\<lparr>p_ctx := ctx, p_flight := (if again then p_flight s else p_flight s - {i})\<rparr>))
      else Inr s)"
| "handle_event cb ep (Tx_Completes status) s = Inr (tx_completes ep status s)"
| "handle_event cb ep Tx_Submitted s = Inr (s\<lparr>p_active_tx := p_active_tx s + 1\<rparr>)"
| "handle_event cb ep Stopped s = Inr (s\<lparr>p_ctx := (p_ctx s)\<lparr>running := False\<rparr>\<rparr>)"

fun handle_events :: "rx_callback \<Rightarrow> byte \<Rightarrow> pool_event list \<Rightarrow> pool_state \<Rightarrow> pool_state run" where
  "handle_events cb ep [] s = Inr s"
| "handle_events cb ep (e # es) s = bindR (handle_event cb ep e s) (handle_events cb ep es)"

text \<open>The rounds are the fuel: a loop without an end among them is still running.\<close>

fun event_loop :: "rx_callback \<Rightarrow> byte \<Rightarrow> event_round list \<Rightarrow> pool_state \<Rightarrow> pool_state run" where
  "event_loop cb ep [] s = Inl No_Fuel"
| "event_loop cb ep (r # rs) s =
     (if running (p_ctx s) \<and> round_g_running r \<and> active_rx (p_ctx s) > 0 then
        bindR (handle_events cb ep (round_events r) s) (\<lambda>s'.
          if round_error r = Some ERROR_NO_DEVICE
          then Inr (s'\<lparr>p_ctx := (p_ctx s')\<lparr>disconnected := True, running := False\<rparr>\<rparr>)
          else event_loop cb ep rs s')
      else Inr s)"

fun drain_loop :: "rx_callback \<Rightarrow> byte \<Rightarrow> int \<Rightarrow> drain_round list \<Rightarrow> pool_state \<Rightarrow> pool_state run" where
  "drain_loop cb ep start [] s = Inl No_Fuel"
| "drain_loop cb ep start (r # rs) s =
     (if (active_rx (p_ctx s) > 0 \<or> p_active_tx s > 0) \<and> drain_time r - start < 2
      then bindR (handle_events cb ep (drain_events r) s) (drain_loop cb ep start rs) else Inr s)"

definition cancel_calls :: "rx_slot list \<Rightarrow> (nat \<Rightarrow> bool) \<Rightarrow> nat \<Rightarrow> pool_call list" where
  "cancel_calls slots tx_busy n =
     map Rx_Cancel (filter (\<lambda>i. has_xfer (slots ! i)) [0..<length slots]) @
     map Tx_Cancel (filter tx_busy [0..<n])"

definition free_slot_calls :: "rx_slot list \<Rightarrow> nat \<Rightarrow> pool_call list" where
  "free_slot_calls slots i =
     (if has_xfer (slots ! i) then [Rx_Free_Xfer i] else []) @ (if has_buf (slots ! i) then [Rx_Free_Buf i] else [])"

definition free_pool :: "rx_slot list \<Rightarrow> pool_call list" where
  "free_pool slots = concat (map (free_slot_calls slots) [0..<length slots])"

text \<open>The successful submissions, which are in flight.\<close>

definition submissions :: "pool_call list \<Rightarrow> nat list" where
  "submissions calls = concat (map (\<lambda>c. case c of Rx_Submit i True \<Rightarrow> [i] | _ \<Rightarrow> []) calls)"

text \<open>
  \<open>tx_busy\<close> says which transmit slots are in use (and have a transfer) when the loop has ended,
  \<open>active\<close> is \<open>active_tx\<close> at the start of the thread.
\<close>

definition usb_to_tun ::
    "rx_callback \<Rightarrow> byte \<Rightarrow> pool_env \<Rightarrow> event_round list \<Rightarrow> (nat \<Rightarrow> bool) \<Rightarrow> int \<Rightarrow> int \<Rightarrow> drain_round list \<Rightarrow> rx_ctx \<Rightarrow>
     (pool_state \<times> pool_call list) run" where
  "usb_to_tun cb ep env rounds tx_busy active start drains ctx =
     (let (slots, n, calls) = fill_pool env [0..<NUM_RX_XFERS];
          s0 = \<lparr>p_ctx = ctx\<lparr>active_rx := active_rx ctx + n\<rparr>, p_active_tx = active, p_flight = set (submissions calls)\<rparr>
      in bindR (event_loop cb ep rounds s0) (\<lambda>s1.
         bindR (drain_loop cb ep start drains (s1\<lparr>p_ctx := (p_ctx s1)\<lparr>running := False\<rparr>\<rparr>)) (\<lambda>s2.
         Inr (s2, calls @ cancel_calls slots tx_busy 64 @ free_pool slots))))"

section \<open>The pool is given back\<close>

text \<open>Allocations less releases of slot \<open>i\<close>, of buffers and of transfers.\<close>

fun buf_delta :: "nat \<Rightarrow> pool_call \<Rightarrow> int" where
  "buf_delta i (Rx_Malloc j ok) = (if i = j \<and> ok then 1 else 0)"
| "buf_delta i (Rx_Free_Buf j) = (if i = j then -1 else 0)"
| "buf_delta i _ = 0"

fun xfer_delta :: "nat \<Rightarrow> pool_call \<Rightarrow> int" where
  "xfer_delta i (Rx_Alloc j ok) = (if i = j \<and> ok then 1 else 0)"
| "xfer_delta i (Rx_Free_Xfer j) = (if i = j then -1 else 0)"
| "xfer_delta i _ = 0"

lemma fill_slot_net:
  "fill_slot env i = (slot, n, calls) \<Longrightarrow>
     net (buf_delta j) calls = one_if (i = j \<and> has_buf slot) \<and> net (xfer_delta j) calls = one_if (i = j \<and> has_xfer slot) \<and>
     n = one_if (Rx_Submit i True \<in> set calls) \<and> (\<forall>ok. Rx_Submit i ok \<in> set calls \<longrightarrow> has_xfer slot \<and> has_buf slot) \<and>
     (\<forall>j ok. Rx_Submit j ok \<in> set calls \<longrightarrow> j = i)"
  by (auto simp: fill_slot_def Let_def one_if_def split: if_splits)

lemma submissions_simps [simp]:
  "submissions [] = []" "submissions (xs @ ys) = submissions xs @ submissions ys"
  by (simp_all add: submissions_def)

lemma fill_slot_submissions:
  "fill_slot env i = (slot, n, calls) \<Longrightarrow> submissions calls = (if n = 1 then [i] else []) \<and> n \<in> {0, 1} \<and>
     (n = 1 \<longrightarrow> has_xfer slot)"
  by (auto simp: fill_slot_def Let_def submissions_def split: if_splits)

lemma fill_pool_Cons:
  assumes "fill_pool env (i # is) = (slots, n, calls)"
  obtains slot n1 l1 slots' n2 l2 where "fill_slot env i = (slot, n1, l1)" "fill_pool env is = (slots', n2, l2)"
    "slots = slot # slots'" "n = n1 + n2" "calls = l1 @ l2"
  using assms by (auto split: prod.splits)

lemma fill_pool_length: "fill_pool env is = (slots, n, calls) \<Longrightarrow> length slots = length is"
  by (induction "is" arbitrary: slots n calls) (auto split: prod.splits)

lemma fill_pool_submissions:
  "fill_pool env is = (slots, n, calls) \<Longrightarrow> distinct is \<Longrightarrow>
     n = int (length (submissions calls)) \<and> set (submissions calls) \<subseteq> set is \<and> distinct (submissions calls)"
proof (induction "is" arbitrary: slots n calls)
  case (Cons i "is")
  obtain slot n1 l1 slots' n2 l2 where f: "fill_slot env i = (slot, n1, l1)" "fill_pool env is = (slots', n2, l2)"
    "n = n1 + n2" "calls = l1 @ l2" using Cons.prems(1) by (rule fill_pool_Cons)
  then show ?case
    using Cons.IH [OF f(2)] Cons.prems(2) fill_slot_submissions [OF f(1)] by auto
qed simp

lemma fill_pool_other:
  "fill_pool env is = (slots, n, calls) \<Longrightarrow> k \<notin> set is \<Longrightarrow>
     net (buf_delta k) calls = 0 \<and> net (xfer_delta k) calls = 0"
proof (induction "is" arbitrary: slots n calls)
  case (Cons i "is")
  obtain slot n1 l1 slots' n2 l2 where f: "fill_slot env i = (slot, n1, l1)" "fill_pool env is = (slots', n2, l2)"
    "n = n1 + n2" "calls = l1 @ l2" using Cons.prems(1) by (rule fill_pool_Cons)
  then show ?case
    using Cons.IH [OF f(2)] Cons.prems(2) fill_slot_net [OF f(1), of k] by (simp add: one_if_def)
qed simp

lemma fill_pool_slot:
  "fill_pool env is = (slots, n, calls) \<Longrightarrow> distinct is \<Longrightarrow> j < length is \<Longrightarrow>
     net (buf_delta (is ! j)) calls = one_if (has_buf (slots ! j)) \<and>
     net (xfer_delta (is ! j)) calls = one_if (has_xfer (slots ! j)) \<and>
     (is ! j \<in> set (submissions calls) \<longrightarrow> has_xfer (slots ! j))"
proof (induction "is" arbitrary: slots n calls j)
  case (Cons i "is")
  obtain slot n1 l1 slots' n2 l2 where f: "fill_slot env i = (slot, n1, l1)" "fill_pool env is = (slots', n2, l2)"
    "slots = slot # slots'" "n = n1 + n2" "calls = l1 @ l2" using Cons.prems(1) by (rule fill_pool_Cons)
  have d: "distinct is" "i \<notin> set is" using Cons.prems(2) by auto
  note other = fill_pool_other [OF f(2) d(2)] fill_slot_net [OF f(1)] fill_slot_submissions [OF f(1)]
  have "i \<notin> set (submissions l2)" using fill_pool_submissions [OF f(2) d(1)] d(2) by auto
  show ?case
  proof (cases j)
    case 0
    with other \<open>i \<notin> set (submissions l2)\<close> show ?thesis by (auto simp: f(3,5))
  next
    case (Suc k)
    then have k: "k < length is" "is ! k \<noteq> i" using Cons.prems(3) d(2) by auto
    have "is ! k \<notin> set (submissions l1)" using other k(2) by auto
    with Cons.IH [OF f(2) d(1) k(1)] other(2) [of "is ! k"] k(2) show ?thesis
      by (simp add: f(3,5) Suc one_if_def)
  qed
qed simp

lemma free_slot_net:
  "net (buf_delta k) (free_slot_calls slots i) = - one_if (k = i \<and> has_buf (slots ! i))"
  "net (xfer_delta k) (free_slot_calls slots i) = - one_if (k = i \<and> has_xfer (slots ! i))"
  by (simp_all add: free_slot_calls_def one_if_def)

lemma free_slots_net:
  "net (buf_delta k) (concat (map (free_slot_calls slots) [0..<n])) = - one_if (k < n \<and> has_buf (slots ! k))"
  "net (xfer_delta k) (concat (map (free_slot_calls slots) [0..<n])) = - one_if (k < n \<and> has_xfer (slots ! k))"
  by (induction n) (auto simp: free_slot_net one_if_def less_Suc_eq)

lemma cancel_net:
  "net (buf_delta k) (cancel_calls slots tx_busy n) = 0" "net (xfer_delta k) (cancel_calls slots tx_busy n) = 0"
  unfolding cancel_calls_def by (rule net_zero; auto)+

section \<open>The loops over a callback\<close>

definition ends_events :: "event_round \<Rightarrow> bool" where
  "ends_events r \<longleftrightarrow> \<not> round_g_running r \<or> round_error r = Some ERROR_NO_DEVICE"

definition event_fits :: "(int \<Rightarrow> buffer \<Rightarrow> bool) \<Rightarrow> pool_event \<Rightarrow> bool" where
  "event_fits fits e = (case e of Rx_Completes i g status len buf \<Rightarrow> fits len buf | _ \<Rightarrow> True)"

text \<open>\<open>active_rx\<close> is the number of transfers in flight, which are among those in \<open>F\<close>.\<close>

definition counted :: "(rx_ctx \<Rightarrow> bool) \<Rightarrow> nat set \<Rightarrow> pool_state \<Rightarrow> bool" where
  "counted good F s \<longleftrightarrow> good (p_ctx s) \<and> finite (p_flight s) \<and> p_flight s \<subseteq> F \<and> active_rx (p_ctx s) = int (card (p_flight s))"

text \<open>
  What the thread needs of the receive callback: it runs without a fault, keeps what holds of the
  context, takes the transfer off \<open>active_rx\<close> unless it is in flight again, and never restarts a
  session.
\<close>

locale counting_callback =
  fixes cb :: rx_callback and fits :: "int \<Rightarrow> buffer \<Rightarrow> bool" and good :: "rx_ctx \<Rightarrow> bool"
  assumes completes: "good ctx \<Longrightarrow> fits len buf \<Longrightarrow> runs_to (cb g status len buf ctx) (\<lambda>(again, ctx').
      good ctx' \<and> active_rx ctx' = active_rx ctx - (if again then 0 else 1) \<and> (running ctx' \<longrightarrow> running ctx))"
    and good_flags: "good ctx \<Longrightarrow> good (ctx\<lparr>disconnected := b, running := c\<rparr>)" "good ctx \<Longrightarrow> good (ctx\<lparr>running := c\<rparr>)"
    and good_halt: "good ctx \<Longrightarrow> good (emit [Clear_Halt ep] ctx)"
begin

lemma event_runs:
  assumes "counted good F s" "event_fits fits e"
  shows "runs_to (handle_event cb ep e s) (\<lambda>s'. counted good F s' \<and> (running (p_ctx s') \<longrightarrow> running (p_ctx s)))"
proof (cases e)
  case (Rx_Completes i g status len buf)
  have "runs_to (cb g status len buf (p_ctx s)) (\<lambda>(again, ctx').
      good ctx' \<and> active_rx ctx' = active_rx (p_ctx s) - (if again then 0 else 1) \<and> (running ctx' \<longrightarrow> running (p_ctx s)))"
    using assms Rx_Completes by (intro completes) (simp_all add: counted_def event_fits_def)
  moreover have "int (card (p_flight s - {i})) = int (card (p_flight s)) - 1" if "i \<in> p_flight s"
    using that assms(1) card_gt_0_iff [of "p_flight s"] by (auto simp: counted_def of_nat_diff)
  ultimately show ?thesis
    using assms(1) Rx_Completes by (auto simp: runs_to_bind counted_def elim!: runs_to_mono)
next
  case (Tx_Completes status)
  then show ?thesis using assms(1) good_flags good_halt
    by (auto simp: tx_completes_def counted_def Let_def emit_def)
qed (use assms(1) good_flags in \<open>auto simp: counted_def\<close>)

lemma events_run:
  "counted good F s \<Longrightarrow> list_all (event_fits fits) es \<Longrightarrow>
     runs_to (handle_events cb ep es s) (\<lambda>s'. counted good F s' \<and> (running (p_ctx s') \<longrightarrow> running (p_ctx s)))"
proof (induction es arbitrary: s)
  case (Cons e es)
  obtain x where x: "handle_event cb ep e s = Inr x" "counted good F x" "running (p_ctx x) \<longrightarrow> running (p_ctx s)"
    using event_runs [OF Cons.prems(1), of e ep] Cons.prems(2) by (auto elim!: runs_toE)
  from Cons.IH [OF x(2)] Cons.prems(2) x(1,3) show ?case by (auto elim!: runs_to_mono)
qed simp

lemma event_loop_runs:
  "counted good F s \<Longrightarrow> list_all (\<lambda>r. list_all (event_fits fits) (round_events r)) rounds \<Longrightarrow>
     (case event_loop cb ep rounds s of
        Inl e \<Rightarrow> e = No_Fuel \<and> list_all (\<lambda>r. \<not> ends_events r) rounds
      | Inr s' \<Rightarrow> counted good F s')"
proof (induction rounds arbitrary: s)
  case (Cons r rs)
  show ?case
  proof (cases "running (p_ctx s) \<and> round_g_running r \<and> active_rx (p_ctx s) > 0")
    case True
    obtain s' where s': "handle_events cb ep (round_events r) s = Inr s'" "counted good F s'"
      using events_run [OF Cons.prems(1)] Cons.prems(2) by (auto elim!: runs_toE)
    with Cons.IH [OF s'(2)] Cons.prems(2) True show ?thesis
      by (auto simp: ends_events_def counted_def good_flags split: sum.splits)
  qed (use Cons.prems(1) in auto)
qed simp

lemma drain_loop_runs:
  "counted good F s \<Longrightarrow> \<not> running (p_ctx s) \<Longrightarrow> list_all (\<lambda>r. list_all (event_fits fits) (drain_events r)) drains \<Longrightarrow>
     (case drain_loop cb ep start drains s of
        Inl e \<Rightarrow> e = No_Fuel \<and> list_all (\<lambda>r. drain_time r - start < 2) drains
      | Inr s' \<Rightarrow> counted good F s' \<and> \<not> running (p_ctx s') \<and>
          (list_all (\<lambda>r. drain_time r - start < 2) drains \<longrightarrow> active_rx (p_ctx s') \<le> 0 \<and> p_active_tx s' \<le> 0))"
proof (induction drains arbitrary: s)
  case (Cons r rs)
  obtain s' where s': "handle_events cb ep (drain_events r) s = Inr s'" "counted good F s'" "\<not> running (p_ctx s')"
    using events_run [OF Cons.prems(1)] Cons.prems(2,3) by (fastforce elim!: runs_toE)
  show ?case
  proof (cases "(active_rx (p_ctx s) > 0 \<or> p_active_tx s > 0) \<and> drain_time r - start < 2")
    case True
    then have "drain_loop cb ep start (r # rs) s = drain_loop cb ep start rs s'" using s'(1) by simp
    then show ?thesis using Cons.IH [OF s'(2,3)] Cons.prems(3) True by (auto split: sum.splits)
  next
    case False
    then have "drain_loop cb ep start (r # rs) s = Inr s" by auto
    then show ?thesis using Cons.prems(1,2) False by auto
  qed
qed simp

end

text \<open>What the thread has called when it returns.\<close>

definition pool_balanced :: "pool_call list \<Rightarrow> bool" where
  "pool_balanced calls \<longleftrightarrow> (\<forall>k. net (buf_delta k) calls = 0 \<and> net (xfer_delta k) calls = 0)"

lemma pool_calls_balanced:
  assumes f: "fill_pool env [0..<NUM_RX_XFERS] = (slots, n, l)"
  shows "pool_balanced (l @ cancel_calls slots tx_busy 64 @ free_pool slots)"
    and "set (submissions l) \<subseteq> {i. Rx_Cancel i \<in> set (cancel_calls slots tx_busy 64)}"
proof -
  have len: "length slots = NUM_RX_XFERS" using fill_pool_length [OF f] by simp
  have "net (buf_delta k) l = one_if (k < NUM_RX_XFERS \<and> has_buf (slots ! k)) \<and>
      net (xfer_delta k) l = one_if (k < NUM_RX_XFERS \<and> has_xfer (slots ! k))" for k
    using fill_pool_slot [OF f distinct_upt, of k] fill_pool_other [OF f, of k]
    by (cases "k < NUM_RX_XFERS") (auto simp: one_if_def)
  then show "pool_balanced (l @ cancel_calls slots tx_busy 64 @ free_pool slots)"
    by (simp add: pool_balanced_def cancel_net free_pool_def free_slots_net len)
  have "Rx_Cancel i \<in> set (cancel_calls slots tx_busy 64)" if "i \<in> set (submissions l)" for i
    using that fill_pool_submissions [OF f distinct_upt] fill_pool_slot [OF f distinct_upt, of i] len
    by (auto simp: cancel_calls_def)
  then show "set (submissions l) \<subseteq> {i. Rx_Cancel i \<in> set (cancel_calls slots tx_busy 64)}" by blast
qed

text \<open>A completed transfer of at most the size of its buffer, in which no length field wraps.\<close>

definition transfer_fits :: "int \<Rightarrow> buffer \<Rightarrow> bool" where
  "transfer_fits len buf \<longleftrightarrow> length buf = RNDIS_BUF_SIZE \<and> nat len \<le> RNDIS_BUF_SIZE \<and> no_wrap buf (nat len)"

text \<open>The callback of the program.\<close>

definition bridge_callback :: "host \<Rightarrow> usb_device \<Rightarrow> nat \<Rightarrow> rx_callback" where
  "bridge_callback host usb fuel = rx_complete host rndis_drv_wrap_frame usb (rndis_drv_unwrap_data fuel)"

interpretation bridge: counting_callback "bridge_callback host usb (Suc RNDIS_BUF_SIZE)" transfer_fits
    "\<lambda>ctx. wf_host host \<and> wf_rx ctx" for host usb
proof
  fix ctx :: rx_ctx and len buf status g
  assume a: "wf_host host \<and> wf_rx ctx" "transfer_fits len buf"
  then have "runs_to (bridge_callback host usb (Suc RNDIS_BUF_SIZE) g status len buf ctx) (\<lambda>(again, ctx'). wf_rx ctx' \<and>
    active_rx ctx' = active_rx ctx - (if again then 0 else 1) \<and>
    (again \<longrightarrow> g \<and> running ctx) \<and> (running ctx' \<longrightarrow> running ctx) \<and>
    (status = NO_DEVICE \<longrightarrow> \<not> again \<and> disconnected ctx' \<and> \<not> running ctx') \<and>
    (status = CANCELLED \<longrightarrow> \<not> again))"
    unfolding bridge_callback_def by (intro rx_complete_runs) (auto simp: transfer_fits_def)
  with a(1) show "runs_to (bridge_callback host usb (Suc RNDIS_BUF_SIZE) g status len buf ctx) (\<lambda>(again, ctx').
      (wf_host host \<and> wf_rx ctx') \<and> active_rx ctx' = active_rx ctx - (if again then 0 else 1) \<and>
      (running ctx' \<longrightarrow> running ctx))"
    by (auto elim!: runs_to_mono)
qed (auto simp: wf_rx_def emit_def balanced_append)


text \<open>A thread with two transfers: one times out and is put in flight again, then both are cancelled.\<close>

definition demo_rounds :: "event_round list" where
  "demo_rounds =
     [\<lparr>round_g_running = True, round_events = [Rx_Completes 0 True TIMED_OUT 0 (replicate 32768 0)], round_error = None\<rparr>,
      \<lparr>round_g_running = False, round_events = [], round_error = None\<rparr>]"

definition demo_drains :: "drain_round list" where
  "demo_drains =
     [\<lparr>drain_time = 100, drain_events = [Rx_Completes 0 False CANCELLED 0 (replicate 32768 0),
         Rx_Completes 1 False CANCELLED 0 (replicate 32768 0)]\<rparr>,
      \<lparr>drain_time = 101, drain_events = []\<rparr>]"

definition demo_pool :: pool_env where
  "demo_pool = \<lparr>pool_malloc_ok = (\<lambda>i. i < 2), pool_alloc_ok = (\<lambda>i. i \<noteq> 3), pool_submit_ok = (\<lambda>_. True)\<rparr>"

abbreviation demo_thread :: "(pool_state \<times> pool_call list) run" where
  "demo_thread \<equiv> usb_to_tun (bridge_callback demo_host zero_usb_device (Suc RNDIS_BUF_SIZE)) (ep_out zero_usb_device)
     demo_pool demo_rounds (\<lambda>_. False) 0 100 demo_drains (demo_rx\<lparr>active_rx := 0\<rparr>)"

lemma demo_fill: "fill_pool demo_pool [0..<NUM_RX_XFERS] = (slots, n, calls) \<Longrightarrow> n = 2 \<and> submissions calls = [0, 1]"
  by (auto simp: demo_pool_def fill_slot_def submissions_def upt_rec Let_def)

lemma demo_thread_ends: "\<exists>s calls. demo_thread = Inr (s, calls)"
proof -
  obtain slots n calls where f: "fill_pool demo_pool [0..<NUM_RX_XFERS] = (slots, n, calls)" by (metis prod_cases3)
  from f demo_fill [OF f] show ?thesis
    by (simp add: usb_to_tun_def demo_rounds_def demo_drains_def demo_rx_def bridge_callback_def rx_complete_def
        demo_host_def emit_def Let_def insert_Diff_if)
qed


text \<open>
  A finding: two seconds are not always enough.  The thread then frees transfers that libusb has not
  given back, and their buffers.
\<close>

lemma drain_gives_up:
  "0 < active_rx (p_ctx s) \<Longrightarrow> drain_loop cb ep 100 [\<lparr>drain_time = 102, drain_events = []\<rparr>] s = Inr s"
  by simp

end
