(* ===== verification/Bridge_Tx.thy ===== *)
theory Bridge_Tx
  imports Arp Frame
begin

text \<open>
  The transmit half of the bridge in \<^verbatim>\<open>src/main.c\<close> as a step relation: the thread \<open>tun_to_usb\<close>, the
  completion callback \<open>tx_complete\<close> on whatever thread handles libusb events, the end of \<open>usb_to_tun\<close>
  and the end of the session in \<open>run_session\<close> interleave.  A step is what one thread does between two
  points where another thread can see or change the shared state: the slot table is only touched
  under \<open>tx_mutex\<close>, so a critical section is one step, while \<open>active_tx\<close>, \<open>running\<close> and \<open>gw_mac\<close> are
  shared without it.
\<close>

section \<open>State\<close>

definition NUM_TX_XFERS :: nat where [simp]: "NUM_TX_XFERS = 64"

text \<open>
  Where \<open>tun_to_usb\<close> is: at its outer loop, in a batch before packet \<open>k\<close>, with a frame of \<open>elen\<close> bytes
  in \<open>ebuf\<close> waiting for a slot, with slot \<open>i\<close> claimed, with slot \<open>i\<close> filled with \<open>rlen\<close> bytes, between
  the submission and \<open>active_tx++\<close>, giving a slot back, or returned.
\<close>

datatype tx_pc =
    Tx_Outer
  | Tx_Batch nat
  | Tx_Have nat nat
  | Tx_Claimed nat nat nat
  | Tx_Filled nat nat nat nat
  | Tx_Account nat nat
  | Tx_Release nat nat
  | Tx_Done

datatype ev_pc = Ev_Loop | Ev_Drain | Ev_Done

text \<open>
  \<open>flight i\<close> is the payload of slot \<open>i\<close> as it was submitted, while libusb owns the transfer;
  \<open>callback\<close> is the slot whose \<open>tx_complete\<close> has begun and has not taken the mutex yet.
\<close>

record tx_state =
  t_mac :: buffer
  t_gw_mac :: buffer
  t_learned :: bool
  t_running :: bool
  t_disconnected :: bool
  t_g_running :: bool
  ebuf :: buffer
  in_use :: "bool list"
  bufs :: "buffer list"
  active_tx :: int
  t_active_rx :: int
  tx_pkts :: "64 word"
  tx_bytes :: "64 word"
  flight :: "nat \<rightharpoonup> buffer"
  callback :: "nat option"
  pc :: tx_pc
  ev :: ev_pc
  freed :: bool

text \<open>The first slot that is not in use.\<close>

fun find_free :: "bool list \<Rightarrow> nat option" where
  "find_free [] = None"
| "find_free (b # bs) = (if \<not> b then Some 0 else map_option Suc (find_free bs))"

definition session_on :: "tx_state \<Rightarrow> bool" where
  "session_on s = (t_running s \<and> t_g_running s)"

section \<open>Steps\<close>

text \<open>
  \<open>late\<close> says whether the two seconds of the drain loop may elapse.  Cancelling the transfers only
  makes libusb complete them, which \<open>complete\<close> allows at any time.
\<close>

inductive tx_step :: "bool \<Rightarrow> tx_state \<Rightarrow> tx_state \<Rightarrow> bool" for late where
  tx_exit: "pc s = Tx_Outer \<Longrightarrow> \<not> session_on s \<Longrightarrow> tx_step late s (s\<lparr>pc := Tx_Done\<rparr>)"
| tx_poll: "pc s = Tx_Outer \<Longrightarrow> session_on s \<Longrightarrow> tx_step late s (s\<lparr>pc := Tx_Batch 0\<rparr>)"
| tx_batch_end: "pc s = Tx_Batch k \<Longrightarrow> tx_step late s (s\<lparr>pc := Tx_Outer\<rparr>)"
| tx_read: "pc s = Tx_Batch k \<Longrightarrow> k < 64 \<Longrightarrow> length tbuf = ETH_BUF_SIZE + 256 \<Longrightarrow>
    0 < tlen \<Longrightarrow> tlen \<le> length tbuf \<Longrightarrow>
    frame_ip_to_eth tbuf tlen (ebuf s) ETH_BUF_SIZE (t_mac s) (t_gw_mac s) = Inr (elen, e) \<Longrightarrow>
    tx_step late s (s\<lparr>ebuf := e, pc := if elen > 0 then Tx_Have k (nat elen) else Tx_Batch (k + 1)\<rparr>)"
| tx_claim: "pc s = Tx_Have k elen \<Longrightarrow> session_on s \<Longrightarrow> find_free (in_use s) = Some i \<Longrightarrow>
    tx_step late s (s\<lparr>in_use := (in_use s)[i := True], pc := Tx_Claimed k i elen\<rparr>)"
| tx_no_slot: "pc s = Tx_Have k elen \<Longrightarrow> \<not> session_on s \<Longrightarrow> tx_step late s (s\<lparr>pc := Tx_Outer\<rparr>)"
| tx_wrap: "pc s = Tx_Claimed k i elen \<Longrightarrow>
    rndis_drv_wrap_frame (ebuf s) elen (bufs s ! i) RNDIS_BUF_SIZE = Inr (rlen, b) \<Longrightarrow>
    tx_step late s (s\<lparr>bufs := (bufs s)[i := b],
      pc := if rlen > 0 then Tx_Filled k i elen (nat rlen) else Tx_Release k i\<rparr>)"
| tx_submit: "pc s = Tx_Filled k i elen rlen \<Longrightarrow>
    tx_step late s (s\<lparr>flight := (flight s)(i \<mapsto> take rlen (bufs s ! i)), pc := Tx_Account k elen\<rparr>)"
| tx_submit_fails: "pc s = Tx_Filled k i elen rlen \<Longrightarrow> tx_step late s (s\<lparr>pc := Tx_Release k i\<rparr>)"
| tx_account: "pc s = Tx_Account k elen \<Longrightarrow>
    tx_step late s (s\<lparr>active_tx := active_tx s + 1, tx_pkts := tx_pkts s + 1,
      tx_bytes := tx_bytes s + word_of_nat elen, pc := Tx_Batch (k + 1)\<rparr>)"
| tx_release: "pc s = Tx_Release k i \<Longrightarrow>
    tx_step late s (s\<lparr>in_use := (in_use s)[i := False], pc := Tx_Batch (k + 1)\<rparr>)"
| complete: "flight s i = Some p \<Longrightarrow> callback s = None \<Longrightarrow> \<not> freed s \<Longrightarrow>
    tx_step late s (s\<lparr>flight := (flight s)(i := None), callback := Some i,
      t_disconnected := t_disconnected s \<or> no_device, t_running := t_running s \<and> \<not> no_device\<rparr>)"
| callback_ends: "callback s = Some i \<Longrightarrow>
    tx_step late s (s\<lparr>in_use := (in_use s)[i := False], active_tx := active_tx s - 1, callback := None\<rparr>)"
| learn: "\<not> t_learned s \<Longrightarrow> length m = 6 \<Longrightarrow> tx_step late s (s\<lparr>t_gw_mac := m, t_learned := True\<rparr>)"
| rx_done: "tx_step late s (s\<lparr>t_active_rx := t_active_rx s - 1\<rparr>)"
| ev_stop: "ev s = Ev_Loop \<Longrightarrow> \<not> session_on s \<or> t_active_rx s \<le> 0 \<Longrightarrow>
    tx_step late s (s\<lparr>t_running := False, ev := Ev_Drain\<rparr>)"
| ev_lost: "ev s = Ev_Loop \<Longrightarrow>
    tx_step late s (s\<lparr>t_disconnected := True, t_running := False, ev := Ev_Drain\<rparr>)"
| ev_drained: "ev s = Ev_Drain \<Longrightarrow> t_active_rx s \<le> 0 \<Longrightarrow> active_tx s \<le> 0 \<Longrightarrow>
    tx_step late s (s\<lparr>ev := Ev_Done\<rparr>)"
| ev_late: "ev s = Ev_Drain \<Longrightarrow> late \<Longrightarrow> tx_step late s (s\<lparr>ev := Ev_Done\<rparr>)"
| main_stop: "tx_step late s (s\<lparr>t_running := False\<rparr>)"
| signal: "tx_step late s (s\<lparr>t_g_running := False\<rparr>)"
| main_frees: "pc s = Tx_Done \<Longrightarrow> ev s = Ev_Done \<Longrightarrow> tx_step late s (s\<lparr>freed := True\<rparr>)"

text \<open>The bridge as \<open>run_session\<close> starts it, all allocations successful.\<close>

definition tx_init :: "tx_state \<Rightarrow> bool" where
  "tx_init s \<longleftrightarrow> length (t_mac s) = 6 \<and> t_gw_mac s = replicate 6 0xFF \<and> \<not> t_learned s \<and> t_running s \<and>
     \<not> t_disconnected s \<and> length (ebuf s) = ETH_BUF_SIZE \<and> in_use s = replicate NUM_TX_XFERS False \<and>
     length (bufs s) = NUM_TX_XFERS \<and> list_all (\<lambda>b. length b = RNDIS_BUF_SIZE) (bufs s) \<and>
     active_tx s = 0 \<and> tx_pkts s = 0 \<and> tx_bytes s = 0 \<and> flight s = Map.empty \<and> callback s = None \<and>
     pc s = Tx_Outer \<and> ev s = Ev_Loop \<and> \<not> freed s"

inductive tx_reach :: "bool \<Rightarrow> tx_state \<Rightarrow> bool" for late where
  start: "tx_init s \<Longrightarrow> tx_reach late s"
| move: "tx_reach late s \<Longrightarrow> tx_step late s s' \<Longrightarrow> tx_reach late s'"

section \<open>The invariant\<close>

fun owner :: "tx_pc \<Rightarrow> nat option" where
  "owner (Tx_Claimed k i elen) = Some i"
| "owner (Tx_Filled k i elen rlen) = Some i"
| "owner (Tx_Release k i) = Some i"
| "owner _ = None"

definition slot_free :: "tx_state \<Rightarrow> nat \<Rightarrow> bool" where
  "slot_free s i \<longleftrightarrow> flight s i = None \<and> callback s \<noteq> Some i \<and> owner (pc s) \<noteq> Some i"

text \<open>A frame the host sends: complete, from the host's address.\<close>

definition host_frame :: "buffer \<Rightarrow> buffer \<Rightarrow> bool" where
  "host_frame mac f \<longleftrightarrow> 15 \<le> length f \<and> length f \<le> ETH_BUF_SIZE \<and> take 6 (drop 6 f) = mac \<and>
     be16_at f 12 \<in> {0x0800, 0x86DD}"

definition shapes :: "tx_state \<Rightarrow> bool" where
  "shapes s \<longleftrightarrow> length (t_mac s) = 6 \<and> length (t_gw_mac s) = 6 \<and> length (ebuf s) = ETH_BUF_SIZE \<and>
     length (in_use s) = NUM_TX_XFERS \<and> length (bufs s) = NUM_TX_XFERS \<and>
     (\<forall>b \<in> set (bufs s). length b = RNDIS_BUF_SIZE)"

definition slots_ok :: "tx_state \<Rightarrow> bool" where
  "slots_ok s \<longleftrightarrow> (\<forall>i < NUM_TX_XFERS. in_use s ! i \<longleftrightarrow> \<not> slot_free s i) \<and> dom (flight s) \<subseteq> {..<NUM_TX_XFERS} \<and>
     (\<forall>i. callback s = Some i \<longrightarrow> i < NUM_TX_XFERS \<and> flight s i = None) \<and>
     (\<forall>i. owner (pc s) = Some i \<longrightarrow> i < NUM_TX_XFERS \<and> flight s i = None \<and> callback s \<noteq> Some i)"

fun pc_frame_ok :: "buffer \<Rightarrow> buffer \<Rightarrow> buffer list \<Rightarrow> tx_pc \<Rightarrow> bool" where
  "pc_frame_ok mac eb bs (Tx_Have k elen) = (elen \<le> ETH_BUF_SIZE \<and> host_frame mac (take elen eb))"
| "pc_frame_ok mac eb bs (Tx_Claimed k i elen) = (elen \<le> ETH_BUF_SIZE \<and> host_frame mac (take elen eb))"
| "pc_frame_ok mac eb bs (Tx_Filled k i elen rlen) =
     (elen \<le> ETH_BUF_SIZE \<and> host_frame mac (take elen eb) \<and>
      take rlen (bs ! i) = wire_message (take elen eb, []))"
| "pc_frame_ok mac eb bs _ = True"

definition contents_ok :: "tx_state \<Rightarrow> bool" where
  "contents_ok s \<longleftrightarrow> pc_frame_ok (t_mac s) (ebuf s) (bufs s) (pc s) \<and>
     (\<forall>i p. flight s i = Some p \<longrightarrow> take (length p) (bufs s ! i) = p \<and> (\<exists>f. host_frame (t_mac s) f \<and> p = wire_message (f, [])))"

definition count_ok :: "tx_state \<Rightarrow> bool" where
  "count_ok s \<longleftrightarrow> active_tx s = int (card (dom (flight s))) + (if callback s = None then 0 else 1) -
     (case pc s of Tx_Account _ _ \<Rightarrow> 1 | _ \<Rightarrow> 0)"

lemma find_free_Some:
  "find_free bs = Some i \<Longrightarrow> i < length bs \<and> \<not> bs ! i"
  by (induction bs arbitrary: i) (auto split: if_splits)

lemma find_free_None: "find_free bs = None \<longleftrightarrow> (\<forall>i < length bs. bs ! i)"
  by (induction bs) (auto simp: less_Suc_eq_0_disj)

lemma read_frame:
  assumes "length tbuf = ETH_BUF_SIZE + 256" "0 < tlen" "tlen \<le> length tbuf" "length eb = ETH_BUF_SIZE"
    and "length mac = 6" "length gw = 6" "frame_ip_to_eth tbuf tlen eb ETH_BUF_SIZE mac gw = Inr (elen, e)"
  shows "length e = ETH_BUF_SIZE \<and> (0 < elen \<longrightarrow> elen \<le> int ETH_BUF_SIZE \<and> 15 \<le> elen \<and>
    take 6 (drop 6 (take (nat elen) e)) = mac \<and> be16_at (take (nat elen) e) 12 \<in> {0x0800, 0x86DD})"
proof (cases "5 \<le> tlen \<and> tlen + 10 \<le> ETH_BUF_SIZE \<and> ip_ethertype (be32_at tbuf 0) (tbuf ! 4) \<noteq> None")
  case True
  then obtain t where t: "ip_ethertype (be32_at tbuf 0) (tbuf ! 4) = Some t" by auto
  then have "t \<in> {0x0800, 0x86DD}" by (auto simp: ip_ethertype_def Let_def split: if_splits)
  moreover have "frame_ip_to_eth tbuf tlen eb ETH_BUF_SIZE mac gw =
    Inr (int (tlen + 10), enc_eth_hdr \<lparr>eth_dst = gw, eth_src = mac, eth_ethertype = t\<rparr> @
      take (tlen - 4) (drop 4 tbuf) @ drop (tlen + 10) eb)"
    using True assms t by (intro ip_to_eth_runs) auto
  moreover have "nat (int tlen + 10) = tlen + 10" by simp
  ultimately show ?thesis
    using assms True
    by (auto simp: enc_eth_hdr_def be16_at_take simp del: drop_append take_append)
      (auto simp: enc_eth_hdr_def)
next
  case False
  have "runs_to (frame_ip_to_eth tbuf tlen eb ETH_BUF_SIZE mac gw) (\<lambda>(r, b). length b = length eb)"
    using frame_ip_to_eth_safe [of tlen tbuf ETH_BUF_SIZE eb mac gw] assms by (auto elim: runs_to_mono)
  moreover have "elen \<le> 0"
    using False assms
    by (auto simp: frame_ip_to_eth_def Let_def rd_u8_def be32_at_take bindR_eq_Inr split: if_splits option.splits)
  ultimately show ?thesis using assms by simp
qed

lemma wrap_frame:
  assumes "elen \<le> ETH_BUF_SIZE" "length eb = ETH_BUF_SIZE" "length b = RNDIS_BUF_SIZE"
  shows "rndis_drv_wrap_frame eb elen b RNDIS_BUF_SIZE =
    Inr (int (44 + elen), wire_message (take elen eb, []) @ drop (44 + elen) b)"
  using assms by (simp add: rndis_drv_wrap_frame_def build_data_packet_eq wire_message_def min_absorb2)

lemma shapes_step:
  assumes "tx_step late s s'" "shapes s" "pc_frame_ok (t_mac s) (ebuf s) (bufs s) (pc s)"
    and "\<And>i. owner (pc s) = Some i \<Longrightarrow> i < NUM_TX_XFERS"
  shows "shapes s'"
  using assms(1)
proof (cases rule: tx_step.cases)
  case (tx_read k tbuf tlen elen e)
  then show ?thesis
    using read_frame [of tbuf tlen "ebuf s" "t_mac s" "t_gw_mac s" elen e] assms(2) by (simp add: shapes_def)
next
  case (tx_wrap k i elen rlen b)
  then have "i < length (bufs s)" using assms(2,4) by (simp add: shapes_def)
  then have "length (bufs s ! i) = RNDIS_BUF_SIZE" using assms(2) by (auto simp: shapes_def)
  then show ?thesis
    using tx_wrap assms(2,3) wrap_frame [of elen "ebuf s" "bufs s ! i"]
    by (auto simp: shapes_def dest!: set_update_subset_insert [THEN subsetD])
qed (use assms(2) in \<open>auto simp: shapes_def\<close>)

lemma slots_step:
  assumes "tx_step late s s'" "shapes s" "slots_ok s"
  shows "slots_ok s'"
  using assms(1)
proof (cases rule: tx_step.cases)
  case (tx_claim k elen i)
  then show ?thesis
    using assms(2,3) find_free_Some [of "in_use s" i]
    by (auto simp: shapes_def slots_ok_def slot_free_def nth_list_update)
qed (use assms(2,3) in \<open>auto simp: shapes_def slots_ok_def slot_free_def nth_list_update split: if_splits\<close>)

lemma contents_step:
  assumes "tx_step late s s'" "shapes s" "slots_ok s" "contents_ok s"
  shows "contents_ok s'"
  using assms(1)
proof (cases rule: tx_step.cases)
  case (tx_read k tbuf tlen elen e)
  then show ?thesis
    using read_frame [of tbuf tlen "ebuf s" "t_mac s" "t_gw_mac s" elen e] assms(2,4)
    by (auto simp: shapes_def contents_ok_def host_frame_def min_absorb2 nat_le_iff)
next
  case (tx_wrap k i elen rlen b)
  then have i: "i < length (bufs s)" "flight s i = None" using assms(2,3) by (auto simp: shapes_def slots_ok_def)
  then have "length (bufs s ! i) = RNDIS_BUF_SIZE" using assms(2) by (auto simp: shapes_def)
  moreover have "elen \<le> ETH_BUF_SIZE" "host_frame (t_mac s) (take elen (ebuf s))"
    using assms(4) tx_wrap by (simp_all add: contents_ok_def)
  ultimately show ?thesis
    using tx_wrap i assms(2,4) wrap_frame [of elen "ebuf s" "bufs s ! i"]
    by (auto simp: shapes_def contents_ok_def nat_add_distrib min_absorb2 nth_list_update)
next
  case (tx_submit k i elen rlen)
  then have "host_frame (t_mac s) (take elen (ebuf s))"
      "take rlen (bufs s ! i) = wire_message (take elen (ebuf s), [])"
    using assms(4) by (simp_all add: contents_ok_def)
  moreover have "take (length (take rlen (bufs s ! i))) (bufs s ! i) = take rlen (bufs s ! i)"
    by (simp add: min_def)
  ultimately show ?thesis
    using tx_submit assms(4) by (auto simp: contents_ok_def simp del: length_take length_wire_message)
qed (use assms(4) in \<open>auto simp: contents_ok_def split: if_splits\<close>)

lemma count_step:
  assumes "tx_step late s s'" "slots_ok s" "count_ok s"
  shows "count_ok s'"
proof -
  have fin: "finite (dom (flight s))" using assms(2) finite_subset by (auto simp: slots_ok_def)
  show ?thesis
    using assms(1)
  proof (cases rule: tx_step.cases)
    case (tx_submit k i elen rlen)
    then have "i \<notin> dom (flight s)" using assms(2) by (auto simp: slots_ok_def)
    then show ?thesis using tx_submit assms(3) fin by (simp add: count_ok_def)
  next
    case (complete i p no_device)
    then have "i \<in> dom (flight s)" by auto
    then have "int (card (dom (flight s) - {i})) = int (card (dom (flight s))) - 1"
      using card.remove [OF fin, of i] by simp
    then show ?thesis using complete assms(3) by (simp add: count_ok_def)
  qed (use assms(3) in \<open>auto simp: count_ok_def\<close>)
qed

definition tx_inv :: "tx_state \<Rightarrow> bool" where
  "tx_inv s \<longleftrightarrow> shapes s \<and> slots_ok s \<and> contents_ok s \<and> count_ok s"

lemma tx_inv_reach: "tx_reach late s \<Longrightarrow> tx_inv s"
proof (induction rule: tx_reach.induct)
  case (start s)
  then show ?case
    by (simp add: tx_inv_def shapes_def slots_ok_def slot_free_def contents_ok_def count_ok_def tx_init_def
        list_all_iff)
next
  case (move s s')
  have "i < NUM_TX_XFERS" if "owner (pc s) = Some i" for i
    using that move.IH by (simp add: tx_inv_def slots_ok_def)
  with move show ?case
    using shapes_step slots_step contents_step count_step by (simp add: tx_inv_def contents_ok_def)
qed

section \<open>A run of the bridge\<close>

definition demo_start :: tx_state where
  "demo_start = \<lparr>t_mac = [2, 66, 172, 17, 0, 1], t_gw_mac = replicate 6 0xFF, t_learned = False,
     t_running = True, t_disconnected = False, t_g_running = True, ebuf = replicate 2048 0,
     in_use = replicate 64 False, bufs = replicate 64 (replicate 32768 0), active_tx = 0,
     t_active_rx = 0, tx_pkts = 0, tx_bytes = 0, flight = Map.empty, callback = None, pc = Tx_Outer,
     ev = Ev_Loop, freed = False\<rparr>"

lemma demo_start_init: "tx_init demo_start"
  by (simp add: tx_init_def demo_start_def list_all_iff)

definition demo_packet :: buffer where
  "demo_packet = [0, 0, 0, 2, 0x45, 7] @ replicate 2298 0"

definition demo_frame :: buffer where
  "demo_frame = replicate 6 0xFF @ [2, 66, 172, 17, 0, 1, 8, 0, 0x45, 7]"

lemma demo_read:
  "frame_ip_to_eth demo_packet 6 (replicate 2048 0) 2048 [2, 66, 172, 17, 0, 1] (replicate 6 0xFF) =
     Inr (16, demo_frame @ replicate 2032 0)"
proof -
  have "frame_ip_to_eth demo_packet 6 (replicate 2048 0) 2048 [2, 66, 172, 17, 0, 1] (replicate 6 0xFF) =
    Inr (int (6 + 10), enc_eth_hdr \<lparr>eth_dst = replicate 6 0xFF, eth_src = [2, 66, 172, 17, 0, 1],
      eth_ethertype = 0x0800\<rparr> @ take (6 - 4) (drop 4 demo_packet) @ drop (6 + 10) (replicate 2048 0))"
    by (rule ip_to_eth_runs)
      (simp_all add: demo_packet_def ip_ethertype_def be32_at_def u32_of_def nth_append)
  then show ?thesis by (simp add: demo_packet_def demo_frame_def enc_eth_hdr_def be16_def)
qed

lemma find_free_all_free: "find_free (replicate 64 False) = Some 0"
  by (simp add: numeral_eq_Suc)

text \<open>One packet read, wrapped and submitted; the thread has not counted it yet.\<close>

definition demo_submitted :: tx_state where
  "demo_submitted = demo_start\<lparr>ebuf := demo_frame @ replicate 2032 0, in_use := (replicate 64 False)[0 := True],
     bufs := (replicate 64 (replicate 32768 0))[0 := wire_message (demo_frame, []) @ replicate 32708 0],
     flight := [0 \<mapsto> wire_message (demo_frame, [])], pc := Tx_Account 0 16\<rparr>"

lemma demo_submitted_reach: "tx_reach late demo_submitted"
proof -
  let ?s1 = "demo_start\<lparr>pc := Tx_Batch 0\<rparr>"
  let ?s2 = "?s1\<lparr>ebuf := demo_frame @ replicate 2032 0, pc := Tx_Have 0 16\<rparr>"
  let ?s3 = "?s2\<lparr>in_use := (in_use ?s2)[0 := True], pc := Tx_Claimed 0 0 16\<rparr>"
  let ?s4 = "?s3\<lparr>bufs := (bufs ?s3)[0 := wire_message (demo_frame, []) @ replicate 32708 0],
    pc := Tx_Filled 0 0 16 60\<rparr>"
  have "tx_reach late demo_start" by (rule tx_reach.start) (rule demo_start_init)
  moreover have "tx_step late demo_start ?s1"
    by (rule tx_poll) (simp_all add: demo_start_def session_on_def)
  moreover have "tx_step late ?s1 ?s2"
    using tx_read [of ?s1 0 demo_packet 6 16 "demo_frame @ replicate 2032 0" late] demo_read
    by (simp add: demo_start_def demo_packet_def)
  moreover have "find_free (in_use ?s2) = Some 0" by (simp add: demo_start_def find_free_all_free)
  then have "tx_step late ?s2 ?s3"
    by (intro tx_claim) (simp_all add: demo_start_def session_on_def)
  moreover have "rndis_drv_wrap_frame (ebuf ?s3) 16 (bufs ?s3 ! 0) RNDIS_BUF_SIZE =
      Inr (60, wire_message (demo_frame, []) @ replicate 32708 0)"
    by (subst wrap_frame) (simp_all add: demo_start_def demo_frame_def)
  then have "tx_step late ?s3 ?s4"
    using tx_wrap [of ?s3 0 0 16 60 "wire_message (demo_frame, []) @ replicate 32708 0" late] by simp
  moreover have "length (wire_message (demo_frame, [])) = 60" by (simp add: demo_frame_def)
  then have "take 60 (bufs ?s4 ! 0) = wire_message (demo_frame, [])" by (simp add: demo_start_def)
  then have "tx_step late ?s4 demo_submitted"
    using tx_submit [of ?s4 0 0 16 60 late] by (simp add: demo_submitted_def demo_start_def)
  ultimately show ?thesis by (meson tx_reach.move)
qed

section \<open>Properties\<close>

text \<open>
  C7: In every interleaving the buffer of a transfer in flight is left alone: it holds what was
  submitted, a whole data message around a frame from the host's address, no step changes it, and
  the transfer is not submitted a second time before it completes.
\<close>

theorem tx_buffer_stable_in_flight:
  assumes "tx_reach late s" "tx_step late s s'" "flight s i = Some p"
  shows "take (length p) (bufs s ! i) = p \<and> (\<exists>f. host_frame (t_mac s) f \<and> p = wire_message (f, [])) \<and>
    bufs s' ! i = bufs s ! i \<and> flight s' i \<in> {Some p, None}"
proof -
  have inv: "contents_ok s" "slots_ok s" using tx_inv_reach [OF assms(1)] by (auto simp: tx_inv_def)
  have own: "owner (pc s) \<noteq> Some i" using inv(2) assms(3) by (auto simp: slots_ok_def)
  have "bufs s' ! i = bufs s ! i \<and> flight s' i \<in> {Some p, None}"
    using assms(2) by (cases rule: tx_step.cases) (use own assms(3) in \<open>auto simp: nth_list_update\<close>)
  with inv(1) assms(3) show ?thesis by (simp add: contents_ok_def)
qed

lemma tx_buffer_stable_in_flight_witness:
  "tx_reach False demo_submitted \<and>
   bufs (demo_submitted\<lparr>t_running := False\<rparr>) ! 0 = bufs demo_submitted ! 0 \<and>
   take (length (wire_message (demo_frame, []))) (bufs demo_submitted ! 0) = wire_message (demo_frame, [])"
  using tx_buffer_stable_in_flight [OF demo_submitted_reach [of False] main_stop,
      where i = 0 and p = "wire_message (demo_frame, [])"]
    demo_submitted_reach [of False]
  by (simp add: demo_submitted_def)



text \<open>
  \<open>active_tx\<close> is the number of transfers in flight, less one between a submission and its
  increment; where the sending thread is not in that gap, the drain loop's test \<open>active_tx > 0\<close>
  fails exactly when no transfer and no callback is outstanding.
\<close>

theorem tx_count_exact:
  assumes "tx_reach late s" "\<forall>k elen. pc s \<noteq> Tx_Account k elen"
  shows "active_tx s = int (card (dom (flight s))) + (if callback s = None then 0 else 1) \<and>
    (\<not> active_tx s > 0 \<longleftrightarrow> flight s = Map.empty \<and> callback s = None)"
proof -
  have inv: "count_ok s" "slots_ok s" using tx_inv_reach [OF assms(1)] by (auto simp: tx_inv_def)
  then have "finite (dom (flight s))" using finite_subset by (auto simp: slots_ok_def)
  moreover have "active_tx s = int (card (dom (flight s))) + (if callback s = None then 0 else 1)"
    using inv(1) assms(2) by (cases "pc s") (auto simp: count_ok_def)
  ultimately show ?thesis by (auto simp: card_gt_0_iff)
qed

lemma tx_count_exact_witness:
  "active_tx (demo_submitted\<lparr>active_tx := 1, tx_pkts := 1, tx_bytes := 16, pc := Tx_Batch 1\<rparr>) = 1 \<and>
   card (dom (flight demo_submitted)) = 1"
proof -
  let ?s = "demo_submitted\<lparr>active_tx := 1, tx_pkts := 1, tx_bytes := 16, pc := Tx_Batch 1\<rparr>"
  have "tx_step False demo_submitted ?s"
    using tx_account [of demo_submitted 0 16 False] by (simp add: demo_submitted_def demo_start_def)
  then have "tx_reach False ?s" using demo_submitted_reach by (rule tx_reach.move [rotated])
  from tx_count_exact [OF this] show ?thesis by (simp add: demo_submitted_def demo_start_def)
qed

section \<open>What the counter does not cover\<close>

text \<open>
  In the gap between \<open>libusb_submit_transfer\<close> and \<open>active_tx++\<close> the drain loop of the other thread sees
  zero and ends, also well inside its two seconds; the transfer is then still in flight when
  \<open>run_session\<close> frees it and its buffer.  The run also shows a frame sent with the gateway address
  that has not been learned, which the comment in \<open>process_rx_frame\<close> excludes.
\<close>

lemma in_flight_transfer_freed:
  "\<exists>s. tx_reach False s \<and> freed s \<and> flight s 0 = Some (wire_message (demo_frame, [])) \<and> \<not> t_learned s"
proof -
  let ?s1 = "demo_submitted\<lparr>t_running := False, ev := Ev_Drain\<rparr>"
  let ?s2 = "?s1\<lparr>ev := Ev_Done\<rparr>"
  let ?s3 = "?s2\<lparr>active_tx := active_tx ?s2 + 1, tx_pkts := tx_pkts ?s2 + 1,
    tx_bytes := tx_bytes ?s2 + word_of_nat 16, pc := Tx_Batch (0 + 1)\<rparr>"
  let ?s4 = "?s3\<lparr>pc := Tx_Outer\<rparr>"
  let ?s5 = "?s4\<lparr>pc := Tx_Done\<rparr>"
  let ?s6 = "?s5\<lparr>freed := True\<rparr>"
  have "tx_step False demo_submitted ?s1"
    by (rule ev_stop) (simp_all add: demo_submitted_def demo_start_def)
  moreover have "tx_step False ?s1 ?s2"
    by (rule ev_drained) (simp_all add: demo_submitted_def demo_start_def)
  moreover have "tx_step False ?s2 ?s3"
    by (rule tx_account) (simp add: demo_submitted_def)
  moreover have "tx_step False ?s3 ?s4" by (rule tx_batch_end) simp
  moreover have "tx_step False ?s4 ?s5" by (rule tx_exit) (simp_all add: session_on_def)
  moreover have "tx_step False ?s5 ?s6" by (rule main_frees) simp_all
  ultimately have "tx_reach False ?s6" by (meson demo_submitted_reach tx_reach.move)
  moreover have "freed ?s6 \<and> flight ?s6 0 = Some (wire_message (demo_frame, [])) \<and> \<not> t_learned ?s6"
    by (simp add: demo_submitted_def demo_start_def)
  ultimately show ?thesis by blast
qed

end
