(* ===== verification/C_Text.thy ===== *)
theory C_Text
  imports Tether_Prelude
begin

text \<open>
  Numbers in the text functions of the C library that the program uses: \<^verbatim>\<open>%llu\<close> and \<^verbatim>\<open>%d\<close> of \<open>printf\<close>,
  \<open>strtol\<close>, the conversion \<^verbatim>\<open>%d\<close> of \<open>sscanf\<close>, and \<open>inet_pton\<close>.
\<close>

section \<open>Printing\<close>

fun decimal :: "nat \<Rightarrow> string" where
  "decimal n = (if n < 10 then [''0123456789'' ! n] else decimal (n div 10) @ [''0123456789'' ! (n mod 10)])"

declare decimal.simps [simp del]

section \<open>Scanning\<close>

definition isspace :: "char \<Rightarrow> bool" where
  "isspace c = (c \<in> {CHR 0x20, CHR 0x09, CHR 0x0A, CHR 0x0B, CHR 0x0C, CHR 0x0D})"

definition digit_value :: "char \<Rightarrow> int option" where
  "digit_value c = map_of (zip ''0123456789'' [0, 1, 2, 3, 4, 5, 6, 7, 8, 9]) c"

fun digits_value :: "int \<Rightarrow> string \<Rightarrow> int \<times> string" where
  "digits_value acc [] = (acc, [])"
| "digits_value acc (c # cs) =
     (case digit_value c of None \<Rightarrow> (acc, c # cs) | Some d \<Rightarrow> digits_value (10 * acc + d) cs)"

text \<open>\<open>strtol\<close> in base 10 with its saturation: the value and the rest; no digits are \<open>None\<close>.\<close>

definition strtol :: "string \<Rightarrow> (int \<times> string) option" where
  "strtol s =
     (let t = dropWhile isspace s;
          (neg, u) = (case t of c # cs \<Rightarrow> if c = CHR ''-'' then (True, cs) else if c = CHR ''+'' then (False, cs) else (False, t)
                      | [] \<Rightarrow> (False, []))
      in if u = [] \<or> digit_value (hd u) = None then None
         else let (v, r) = digits_value 0 u
              in Some (max (- (2 ^ 63)) (min (2 ^ 63 - 1) (if neg then - v else v)), r))"

text \<open>The conversion \<^verbatim>\<open>%d\<close>: the value is stored in an \<open>int\<close>.\<close>

definition to_int :: "int \<Rightarrow> int" where
  "to_int v = sint (word_of_int v :: u32)"

definition scan_d :: "string \<Rightarrow> (int \<times> string) option" where
  "scan_d s = map_option (\<lambda>(v, r). (to_int v, r)) (strtol s)"

text \<open>
  \<open>inet_pton\<close> for IPv4: the parts read so far, and the part being read where it has a digit.
\<close>

fun pton_parts :: "string \<Rightarrow> int list \<Rightarrow> int option \<Rightarrow> int list option" where
  "pton_parts [] parts cur =
     (case cur of Some v \<Rightarrow> if length parts = 3 then Some (parts @ [v]) else None | None \<Rightarrow> None)"
| "pton_parts (c # cs) parts cur =
     (case digit_value c of
        Some d \<Rightarrow>
          (case cur of
             None \<Rightarrow> pton_parts cs parts (Some d)
           | Some v \<Rightarrow> if v = 0 \<or> 10 * v + d > 255 then None else pton_parts cs parts (Some (10 * v + d)))
      | None \<Rightarrow>
          (case cur of
             Some v \<Rightarrow> if c = CHR ''.'' \<and> length parts < 3 then pton_parts cs (parts @ [v]) None else None
           | None \<Rightarrow> None))"

text \<open>The four bytes are stored in order, so that the \<open>uint32_t\<close> they form has the first one lowest.\<close>

definition inet_pton :: "string \<Rightarrow> u32 option" where
  "inet_pton s =
     (case pton_parts s [] None of
        Some [a, b, c, d] \<Rightarrow> Some (u32_of (word_of_int a) (word_of_int b) (word_of_int c) (word_of_int d))
      | _ \<Rightarrow> None)"

section \<open>Scanning what was printed\<close>

lemma digit_value_digit [simp]: "n < 10 \<Longrightarrow> digit_value (''0123456789'' ! n) = Some (int n)"
proof -
  have "list_all (\<lambda>n. digit_value (''0123456789'' ! n) = Some (int n)) [0..<10]" by code_simp
  then show "n < 10 \<Longrightarrow> ?thesis" by (simp add: list_all_iff)
qed

lemma digit_no_space [simp]: "n < 10 \<Longrightarrow> \<not> isspace (''0123456789'' ! n)"
proof -
  have "list_all (\<lambda>n. \<not> isspace (''0123456789'' ! n)) [0..<10]" by code_simp
  then show "n < 10 \<Longrightarrow> ?thesis" by (simp add: list_all_iff)
qed

lemma digit_no_sign [simp]: "n < 10 \<Longrightarrow> ''0123456789'' ! n \<noteq> CHR ''-'' \<and> ''0123456789'' ! n \<noteq> CHR ''+''"
proof -
  have "list_all (\<lambda>n. ''0123456789'' ! n \<noteq> CHR ''-'' \<and> ''0123456789'' ! n \<noteq> CHR ''+'') [0..<10]" by code_simp
  then show "n < 10 \<Longrightarrow> ?thesis" by (simp add: list_all_iff)
qed

lemma decimal_starts: "\<exists>d cs. d < 10 \<and> decimal n = ''0123456789'' ! d # cs"
proof (induction n rule: decimal.induct)
  case (1 n)
  show ?case
  proof (cases "n < 10")
    case False
    with 1 obtain d cs where "d < 10" "decimal (n div 10) = ''0123456789'' ! d # cs" by blast
    then show ?thesis using False by (subst decimal.simps) auto
  qed (subst decimal.simps, auto)
qed

lemma digits_value_decimal: "digits_value 0 (decimal n @ rest) = digits_value (int n) rest"
proof (induction n arbitrary: rest rule: decimal.induct)
  case (1 n)
  show ?case
  proof (cases "n < 10")
    case True
    then show ?thesis by (subst decimal.simps) simp
  next
    case False
    have "digits_value 0 (decimal n @ rest) = digits_value (int (n div 10)) (''0123456789'' ! (n mod 10) # rest)"
      using 1 [OF False] False by (subst decimal.simps) simp
    also have "\<dots> = digits_value (10 * int (n div 10) + int (n mod 10)) rest" by simp
    finally show ?thesis by (simp add: zdiv_int zmod_int)
  qed
qed

definition no_digit :: "string \<Rightarrow> bool" where
  "no_digit s = (case s of [] \<Rightarrow> True | c # _ \<Rightarrow> digit_value c = None)"

lemma digits_value_stops: "no_digit rest \<Longrightarrow> digits_value acc rest = (acc, rest)"
  by (cases rest) (auto simp: no_digit_def)

lemma strtol_decimal: "no_digit rest \<Longrightarrow> n < 2 ^ 63 \<Longrightarrow> strtol (decimal n @ rest) = Some (int n, rest)"
proof -
  assume *: "no_digit rest" "n < 2 ^ 63"
  obtain d cs where d: "d < 10" "decimal n = ''0123456789'' ! d # cs" using decimal_starts by blast
  have v: "digits_value 0 (''0123456789'' ! d # cs @ rest) = (int n, rest)"
    using digits_value_decimal [of n rest] * d by (simp add: digits_value_stops)
  show ?thesis using d(1) v *(2) by (simp add: strtol_def d(2) del: digits_value.simps)
qed

lemma to_int_small [simp]: "0 \<le> v \<Longrightarrow> v < 2 ^ 31 \<Longrightarrow> to_int v = v"
  by (simp add: to_int_def int_word_sint)

lemma scan_d_decimal: "no_digit rest \<Longrightarrow> n < 2 ^ 31 \<Longrightarrow> scan_d (decimal n @ rest) = Some (int n, rest)"
  by (simp add: scan_d_def strtol_decimal)

end
