(* ===== verification/Compat.thy ===== *)
theory Compat
  imports C_Text
begin

text \<open>
  \<^verbatim>\<open>src/compat.c\<close>: detection of the macOS version, with its cache.  The answers of \<open>sysctlbyname\<close> for
  \<^verbatim>\<open>kern.osproductversion\<close> and \<^verbatim>\<open>kern.osrelease\<close> are arguments, absent where the call fails.
\<close>

section \<open>Definitions\<close>

record macos_version =
  major :: int
  minor :: int
  patch :: int

record compat_state =
  g_version :: macos_version
  g_version_detected :: bool

definition compat_init :: compat_state where
  "compat_init = \<lparr>g_version = \<lparr>major = 0, minor = 0, patch = 0\<rparr>, g_version_detected = False\<rparr>"

text \<open>\<^verbatim>\<open>sscanf(ver, "%d.%d.%d", ...)\<close>: a number that is missing leaves its field, and ends the scan.\<close>

definition scan_dot :: "string \<Rightarrow> (int \<times> string) option" where
  "scan_dot s = (case s of c # r \<Rightarrow> if c = CHR ''.'' then scan_d r else None | [] \<Rightarrow> None)"

definition scan_version :: "string \<Rightarrow> macos_version \<Rightarrow> macos_version" where
  "scan_version s v =
     (case scan_d s of None \<Rightarrow> v
      | Some (a, r) \<Rightarrow>
          (case scan_dot r of None \<Rightarrow> v\<lparr>major := a\<rparr>
           | Some (b, r') \<Rightarrow>
               (case scan_dot r' of None \<Rightarrow> v\<lparr>major := a, minor := b\<rparr>
                | Some (c, _) \<Rightarrow> v\<lparr>major := a, minor := b, patch := c\<rparr>)))"

definition version_of_darwin :: "int \<Rightarrow> macos_version \<Rightarrow> macos_version" where
  "version_of_darwin darwin_major v =
     (if darwin_major \<ge> 20 then v\<lparr>major := darwin_major - 9, minor := 0\<rparr>
      else v\<lparr>major := 10, minor := darwin_major - 4\<rparr>)"

definition compat_macos_version ::
    "string option \<Rightarrow> string option \<Rightarrow> compat_state \<Rightarrow> macos_version \<times> compat_state" where
  "compat_macos_version product osrelease st =
     (if g_version_detected st then (g_version st, st)
      else let v = (case product of
                      Some ver \<Rightarrow> scan_version ver (g_version st)
                    | None \<Rightarrow>
                        (case osrelease of
                           Some osrel \<Rightarrow>
                             version_of_darwin (case scan_d osrel of Some (d, _) \<Rightarrow> d | None \<Rightarrow> 0) (g_version st)
                         | None \<Rightarrow> g_version st))
           in (v, st\<lparr>g_version := v, g_version_detected := True\<rparr>))"

definition compat_macos_at_least ::
    "string option \<Rightarrow> string option \<Rightarrow> int \<Rightarrow> int \<Rightarrow> compat_state \<Rightarrow> int \<times> compat_state" where
  "compat_macos_at_least product osrelease maj mnr st =
     (let (v, st') = compat_macos_version product osrelease st
      in (if major v > maj then 1 else if major v = maj \<and> minor v \<ge> mnr then 1 else 0, st'))"

definition name_of :: "macos_version \<Rightarrow> string" where
  "name_of v =
     (if major v \<ge> 26 then ''macOS (future)''
      else if major v \<ge> 15 then ''macOS Sequoia''
      else if major v \<ge> 14 then ''macOS Sonoma''
      else if major v \<ge> 13 then ''macOS Ventura''
      else if major v \<ge> 12 then ''macOS Monterey''
      else if major v \<ge> 11 then ''macOS Big Sur''
      else if major v = 10 then
        if minor v \<ge> 15 then ''macOS Catalina''
        else if minor v \<ge> 14 then ''macOS Mojave''
        else ''macOS (legacy)''
      else ''macOS (unknown)'')"

definition compat_macos_name ::
    "string option \<Rightarrow> string option \<Rightarrow> compat_state \<Rightarrow> string \<times> compat_state" where
  "compat_macos_name product osrelease st =
     (let (v, st') = compat_macos_version product osrelease st in (name_of v, st'))"

section \<open>Properties\<close>

lemma version_detected:
  "compat_macos_version product osrelease st = (v, st') \<Longrightarrow> g_version_detected st' \<and> g_version st' = v"
  by (auto simp: compat_macos_version_def Let_def split: if_splits)

lemma version_cached:
  "g_version_detected st \<Longrightarrow> compat_macos_version product osrelease st = (g_version st, st)"
  by (simp add: compat_macos_version_def)

lemma dot_no_digit: "no_digit (CHR ''.'' # s)"
  by (simp add: no_digit_def digit_value_def)

lemma scan_version_text:
  assumes "a < 2 ^ 31" "b < 2 ^ 31" "c < 2 ^ 31"
  shows "scan_version (decimal a @ ''.'' @ decimal b @ ''.'' @ decimal c) v =
    v\<lparr>major := int a, minor := int b, patch := int c\<rparr>"
  using assms scan_d_decimal [OF dot_no_digit assms(1)] scan_d_decimal [OF dot_no_digit assms(2)]
    scan_d_decimal [of "[]" c]
  by (simp add: scan_version_def scan_dot_def no_digit_def)

text \<open>
  The version is read once and back exactly: from the text \<open>a.b.c\<close> of the system the first call
  returns \<open>a\<close>, \<open>b\<close> and \<open>c\<close>; every later call returns the same, whatever the system answers then;
  and \<open>compat_macos_at_least\<close> compares with it in the order of versions.
\<close>

theorem version_read_back:
  assumes "a < 2 ^ 31" "b < 2 ^ 31" "c < 2 ^ 31"
    and "compat_macos_version (Some (decimal a @ ''.'' @ decimal b @ ''.'' @ decimal c)) osrelease compat_init = (v, st)"
  shows "v = \<lparr>major = int a, minor = int b, patch = int c\<rparr> \<and>
    compat_macos_version product' osrelease' st = (v, st) \<and>
    (fst (compat_macos_at_least product' osrelease' maj mnr st) = 1 \<longleftrightarrow>
       maj < int a \<or> (maj = int a \<and> mnr \<le> int b))"
proof -
  have v: "v = \<lparr>major = int a, minor = int b, patch = int c\<rparr>"
    using assms(4) scan_version_text [OF assms(1-3)]
    by (simp add: compat_macos_version_def compat_init_def Let_def)
  have cached: "compat_macos_version p r st = (v, st)" for p r
    using version_detected [OF assms(4)] version_cached by metis
  show ?thesis using cached by (auto simp: compat_macos_at_least_def v)
qed

lemma version_read_back_witness:
  "fst (compat_macos_version (Some ''14.5.1'') None compat_init) = \<lparr>major = 14, minor = 5, patch = 1\<rparr>"
proof -
  have t: "''14.5.1'' = decimal 14 @ ''.'' @ decimal 5 @ ''.'' @ decimal 1" by code_simp
  obtain v st where c: "compat_macos_version (Some (decimal 14 @ ''.'' @ decimal 5 @ ''.'' @ decimal 1)) None compat_init =
      (v, st)" by fastforce
  show ?thesis using version_read_back [OF _ _ _ c] unfolding t c by simp
qed

text \<open>The version from the kernel release: Darwin 19 is macOS 10.15, 20 is 11, 24 is 15.\<close>

lemma darwin_versions:
  "map (\<lambda>d. name_of (version_of_darwin d (g_version compat_init))) [18, 19, 20, 21, 22, 23, 24] =
     [''macOS Mojave'', ''macOS Catalina'', ''macOS Big Sur'', ''macOS Monterey'', ''macOS Ventura'',
      ''macOS Sonoma'', ''macOS Sequoia'']"
  by (simp add: version_of_darwin_def name_of_def compat_init_def)

end
