(* ===== verification/Stats.thy ===== *)
theory Stats
  imports Net_Types C_Text
begin

text \<open>
  \<^verbatim>\<open>src/stats.c\<close>: the statistics file for the user interface and the stop trigger file.  A file system
  is a map from paths to contents.  The C library's rendering of a \<open>double\<close> with \<^verbatim>\<open>%.2f\<close> is the
  parameter \<open>fmt2\<close>.
\<close>

type_synonym files = "string \<rightharpoonup> string"

definition STATS_JSON_PATH :: string where "STATS_JSON_PATH = ''/tmp/android_tether_stats.json''"
definition STATS_JSON_TMP_PATH :: string where "STATS_JSON_TMP_PATH = ''/tmp/android_tether_stats.json.tmp''"
definition STOP_TRIGGER_PATH :: string where "STOP_TRIGGER_PATH = ''/tmp/android_tether_stop''"

record 'f tether_stats =
  tx_mbps :: 'f
  rx_mbps :: 'f
  tx_bytes :: "64 word"
  rx_bytes :: "64 word"
  tx_pkts :: "64 word"
  rx_pkts :: "64 word"

text \<open>\<^verbatim>\<open>%llu\<close>\<close>

definition llu :: "64 word \<Rightarrow> string" where
  "llu w = decimal (unat w)"

definition quote :: string where "quote = [CHR 0x22]"
definition newline :: string where "newline = [CHR 0x0A]"

definition json_field :: "string \<Rightarrow> string \<Rightarrow> string" where
  "json_field name val = ''  '' @ quote @ name @ quote @ '': '' @ val"

definition stats_text :: "('f \<Rightarrow> string) \<Rightarrow> 'f tether_stats \<Rightarrow> string" where
  "stats_text fmt2 st =
     ''{'' @ newline @
     json_field ''tx_mbps'' (fmt2 (tx_mbps st)) @ '','' @ newline @
     json_field ''rx_mbps'' (fmt2 (rx_mbps st)) @ '','' @ newline @
     json_field ''tx_bytes_total'' (llu (tx_bytes st)) @ '','' @ newline @
     json_field ''rx_bytes_total'' (llu (rx_bytes st)) @ '','' @ newline @
     json_field ''tx_pkts_total'' (llu (tx_pkts st)) @ '','' @ newline @
     json_field ''rx_pkts_total'' (llu (rx_pkts st)) @ newline @ ''}'' @ newline"

text \<open>
  The states of the file system while the file is written: the temporary file grows, then one
  \<open>rename\<close> replaces the old file.  Nothing happens where \<open>fopen\<close> fails.
\<close>

definition stats_write_json :: "bool \<Rightarrow> ('f \<Rightarrow> string) \<Rightarrow> 'f tether_stats \<Rightarrow> files \<Rightarrow> files list" where
  "stats_write_json opened fmt2 st fs =
     (if \<not> opened then [fs]
      else let text = stats_text fmt2 st
           in map (\<lambda>k. fs(STATS_JSON_TMP_PATH \<mapsto> take k text)) [0..<length text + 1] @
              [(fs(STATS_JSON_TMP_PATH := None))(STATS_JSON_PATH \<mapsto> text)])"

definition stats_check_stop_trigger :: "files \<Rightarrow> int \<times> files" where
  "stats_check_stop_trigger fs =
     (if fs STOP_TRIGGER_PATH \<noteq> None then (1, fs(STOP_TRIGGER_PATH := None)) else (0, fs))"

definition stats_cleanup :: "files \<Rightarrow> files" where
  "stats_cleanup fs = fs(STATS_JSON_PATH := None, STATS_JSON_TMP_PATH := None)"

section \<open>Properties\<close>

lemma paths_distinct [simp]:
  "STATS_JSON_PATH \<noteq> STATS_JSON_TMP_PATH" "STATS_JSON_TMP_PATH \<noteq> STATS_JSON_PATH"
  "STOP_TRIGGER_PATH \<noteq> STATS_JSON_PATH" "STOP_TRIGGER_PATH \<noteq> STATS_JSON_TMP_PATH"
  by (simp_all add: STATS_JSON_PATH_def STATS_JSON_TMP_PATH_def STOP_TRIGGER_PATH_def)

lemma last_stats_files [simp]: "last (stats_write_json ok fmt2 st fs) STOP_TRIGGER_PATH = fs STOP_TRIGGER_PATH"
  by (simp add: stats_write_json_def Let_def)

text \<open>
  A reader of the statistics file never sees a partial update: at every moment of
  \<open>stats_write_json\<close> the file has its old contents or the whole new text, at the end the new text if
  the temporary file could be opened, and no other path but the temporary one is touched.
\<close>

theorem stats_update_atomic:
  "(\<forall>f \<in> set (stats_write_json opened fmt2 st fs).
      f STATS_JSON_PATH \<in> {fs STATS_JSON_PATH, Some (stats_text fmt2 st)} \<and>
      (\<forall>path. path \<noteq> STATS_JSON_PATH \<and> path \<noteq> STATS_JSON_TMP_PATH \<longrightarrow> f path = fs path)) \<and>
   last (stats_write_json opened fmt2 st fs) STATS_JSON_PATH =
     (if opened then Some (stats_text fmt2 st) else fs STATS_JSON_PATH)"
  by (auto simp: stats_write_json_def Let_def)

lemma stats_update_atomic_witness:
  "last (stats_write_json True (\<lambda>x. x)
      \<lparr>tx_mbps = ''0.00'', rx_mbps = ''1.50'', tx_bytes = 0, rx_bytes = 42, tx_pkts = 0, rx_pkts = 1\<rparr>
      Map.empty) STATS_JSON_PATH \<noteq> None"
  by (simp add: stats_update_atomic)

text \<open>
  A stop request is seen once: \<open>stats_check_stop_trigger\<close> returns 1 exactly where the trigger file
  is there and takes it away, so that asking again gives 0, and no other file changes.
\<close>

theorem stop_trigger_consumed:
  "stats_check_stop_trigger fs = (r, fs') \<longleftrightarrow>
     fs' = fs(STOP_TRIGGER_PATH := None) \<and> r = (if fs STOP_TRIGGER_PATH = None then 0 else 1) \<and>
     stats_check_stop_trigger fs' = (0, fs')"
  by (cases "fs STOP_TRIGGER_PATH") (auto simp: stats_check_stop_trigger_def fun_upd_idem)

end
