(* ===== verification/Ipc.thy ===== *)
theory Ipc
  imports Stats "HOL-Library.Multiset"
begin

text \<open>
  \<^verbatim>\<open>src/ipc.c\<close>: the Unix socket server between the daemon and its user interface.  The answers of
  the system calls are arguments; what is done to descriptors and to the socket file is returned as
  a list of calls, so that leaks and lost messages can be stated.
\<close>

section \<open>Data\<close>

definition MAX_CLIENTS :: nat where [simp]: "MAX_CLIENTS = 4"
definition IPC_BUF_SIZE :: nat where [simp]: "IPC_BUF_SIZE = 1024"
definition IPC_CMD_NONE :: int where [simp]: "IPC_CMD_NONE = 0"
definition IPC_CMD_STOP :: int where [simp]: "IPC_CMD_STOP = 1"
definition IPC_CMD_DISABLE :: int where [simp]: "IPC_CMD_DISABLE = 2"
definition IPC_CMD_ENABLE :: int where [simp]: "IPC_CMD_ENABLE = 3"

record ipc_server =
  listen_fd :: int
  client_fds :: "int list"
  num_clients :: int

datatype ipc_call =
    Unlink_Sock | Socket int | Bind int bool | Chown_Sock | Chmod_Sock nat | Listen int bool
  | Nonblock int | Close int | Free_Server | Write_Fd int string

section \<open>Creating and destroying the server\<close>

text \<open>
  The arguments: whether \<open>calloc\<close> succeeds, the result of \<open>socket\<close>, whether \<open>bind\<close> and \<open>listen\<close>
  succeed, and whether \<open>SUDO_UID\<close> and \<open>SUDO_GID\<close> are both set.  The modes are 0660 and 0666 in octal.
\<close>

definition ipc_server_create ::
    "bool \<Rightarrow> int \<Rightarrow> bool \<Rightarrow> bool \<Rightarrow> bool \<Rightarrow> ipc_server option \<times> ipc_call list" where
  "ipc_server_create mem fd bind_ok sudo listen_ok =
     (if \<not> mem then (None, [])
      else if fd < 0 then (None, [Unlink_Sock, Socket fd, Free_Server])
      else if \<not> bind_ok then (None, [Unlink_Sock, Socket fd, Bind fd False, Close fd, Free_Server])
      else let perms = (if sudo then [Chown_Sock, Chmod_Sock 0x1B0] else [Chmod_Sock 0x1B6])
           in if \<not> listen_ok
              then (None, [Unlink_Sock, Socket fd, Bind fd True] @ perms @
                      [Listen fd False, Close fd, Unlink_Sock, Free_Server])
              else (Some \<lparr>listen_fd = fd, client_fds = replicate MAX_CLIENTS (-1), num_clients = 0\<rparr>,
                    [Unlink_Sock, Socket fd, Bind fd True] @ perms @ [Listen fd True, Nonblock fd]))"

definition ipc_server_destroy :: "ipc_server option \<Rightarrow> ipc_call list" where
  "ipc_server_destroy srv =
     (case srv of None \<Rightarrow> []
      | Some s \<Rightarrow> map Close (filter (\<lambda>fd. fd \<ge> 0) (client_fds s)) @
                 (if listen_fd s \<ge> 0 then [Close (listen_fd s)] else []) @ [Unlink_Sock, Free_Server])"

section \<open>Messages to the clients\<close>

text \<open>A failed write leaves out the newline.  \<open>written\<close> is the result of the first \<open>write\<close>.\<close>

definition send_to_client :: "(int \<Rightarrow> string \<Rightarrow> int) \<Rightarrow> int \<Rightarrow> string \<Rightarrow> ipc_call list" where
  "send_to_client written fd json =
     [Write_Fd fd json] @
     (if written fd json > 0 \<and> json ! (length json - 1) \<noteq> CHR 0x0A then [Write_Fd fd [CHR 0x0A]] else [])"

definition send_to_all :: "(int \<Rightarrow> string \<Rightarrow> int) \<Rightarrow> ipc_server \<Rightarrow> string \<Rightarrow> ipc_call list" where
  "send_to_all written srv json =
     concat (map (\<lambda>fd. if fd \<ge> 0 then send_to_client written fd json else []) (client_fds srv))"

definition state_json :: "string \<Rightarrow> (string \<times> string) option \<Rightarrow> string" where
  "state_json state addr = snprintf 256
     (case addr of
        Some (ip, iface) \<Rightarrow>
          ''{'' @ quote @ ''type'' @ quote @ '':'' @ quote @ ''state'' @ quote @ '','' @
          quote @ ''state'' @ quote @ '':'' @ quote @ state @ quote @ '','' @
          quote @ ''ip'' @ quote @ '':'' @ quote @ ip @ quote @ '','' @
          quote @ ''iface'' @ quote @ '':'' @ quote @ iface @ quote @ ''}'' @ newline
      | None \<Rightarrow>
          ''{'' @ quote @ ''type'' @ quote @ '':'' @ quote @ ''state'' @ quote @ '','' @
          quote @ ''state'' @ quote @ '':'' @ quote @ state @ quote @ ''}'' @ newline)"

text \<open>\<open>addr\<close> is present where both pointers \<open>ip\<close> and \<open>iface\<close> are.\<close>

definition ipc_server_send_state ::
    "(int \<Rightarrow> string \<Rightarrow> int) \<Rightarrow> ipc_server option \<Rightarrow> string \<Rightarrow> (string \<times> string) option \<Rightarrow> ipc_call list" where
  "ipc_server_send_state written srv state addr =
     (case srv of None \<Rightarrow> [] | Some s \<Rightarrow> send_to_all written s (state_json state addr))"

text \<open>Nothing is formatted or sent where no client is connected.\<close>

definition stats_json :: "('f \<Rightarrow> string) \<Rightarrow> 'f tether_stats \<Rightarrow> string" where
  "stats_json fmt2 st = snprintf 512
     (''{'' @ quote @ ''type'' @ quote @ '':'' @ quote @ ''stats'' @ quote @ '','' @
      quote @ ''tx_mbps'' @ quote @ '':'' @ fmt2 (tx_mbps st) @ '','' @
      quote @ ''rx_mbps'' @ quote @ '':'' @ fmt2 (rx_mbps st) @ '','' @
      quote @ ''tx_bytes'' @ quote @ '':'' @ llu (tx_bytes st) @ '','' @
      quote @ ''rx_bytes'' @ quote @ '':'' @ llu (rx_bytes st) @ '','' @
      quote @ ''tx_pkts'' @ quote @ '':'' @ llu (tx_pkts st) @ '','' @
      quote @ ''rx_pkts'' @ quote @ '':'' @ llu (rx_pkts st) @ ''}'' @ newline)"

definition ipc_server_send_stats ::
    "(int \<Rightarrow> string \<Rightarrow> int) \<Rightarrow> ipc_server option \<Rightarrow> ('f \<Rightarrow> string) \<Rightarrow> 'f tether_stats \<Rightarrow> ipc_call list" where
  "ipc_server_send_stats written srv fmt2 st =
     (case srv of None \<Rightarrow> []
      | Some s \<Rightarrow> if num_clients s = 0 then [] else send_to_all written s (stats_json fmt2 st))"

section \<open>Polling\<close>

definition command_of :: "string \<Rightarrow> int \<Rightarrow> int" where
  "command_of text cmd =
     (if occurs_in (quote @ ''stop'' @ quote) text then IPC_CMD_STOP
      else if occurs_in (quote @ ''disable'' @ quote) text then IPC_CMD_DISABLE
      else if occurs_in (quote @ ''enable'' @ quote) text then IPC_CMD_ENABLE
      else cmd)"

text \<open>\<open>Data []\<close> is a read of length 0, the end of the connection.\<close>

datatype read_result = Data string | Again | Failed

definition close_client :: "ipc_server \<Rightarrow> nat \<Rightarrow> ipc_server \<times> ipc_call list" where
  "close_client srv i =
     (if client_fds srv ! i \<ge> 0
      then (srv\<lparr>client_fds := (client_fds srv)[i := -1], num_clients := num_clients srv - 1\<rparr>,
            [Close (client_fds srv ! i)])
      else (srv, []))"

fun free_slot :: "int list \<Rightarrow> nat option" where
  "free_slot [] = None"
| "free_slot (fd # fds) = (if fd < 0 then Some 0 else map_option Suc (free_slot fds))"

definition accept_client :: "ipc_server \<Rightarrow> int \<Rightarrow> ipc_server \<times> ipc_call list" where
  "accept_client srv fd =
     (if fd \<ge> 0 then
        case free_slot (client_fds srv) of
          Some slot \<Rightarrow>
            (srv\<lparr>client_fds := (client_fds srv)[slot := fd], num_clients := num_clients srv + 1\<rparr>, [Nonblock fd])
        | None \<Rightarrow> (srv, [Nonblock fd, Close fd])
      else (srv, []))"

text \<open>One client of the second loop; \<open>rd\<close> gives what \<open>read\<close> returns on a descriptor.\<close>

definition poll_client ::
    "(int \<Rightarrow> read_result) \<Rightarrow> nat \<Rightarrow> ipc_server \<times> int \<times> ipc_call list \<Rightarrow> ipc_server \<times> int \<times> ipc_call list" where
  "poll_client rd i = (\<lambda>(srv, cmd, calls).
     if client_fds srv ! i < 0 then (srv, cmd, calls)
     else case rd (client_fds srv ! i) of
            Data text \<Rightarrow>
              if text \<noteq> [] then (srv, command_of (c_string (take (IPC_BUF_SIZE - 1) text)) cmd, calls)
              else let (srv', cs) = close_client srv i in (srv', cmd, calls @ cs)
          | Again \<Rightarrow> (srv, cmd, calls)
          | Failed \<Rightarrow> let (srv', cs) = close_client srv i in (srv', cmd, calls @ cs))"

definition ipc_server_poll ::
    "int \<Rightarrow> (int \<Rightarrow> read_result) \<Rightarrow> ipc_server option \<Rightarrow> ipc_server option \<times> int \<times> ipc_call list" where
  "ipc_server_poll accepted rd srv =
     (case srv of None \<Rightarrow> (None, 0, [])
      | Some s \<Rightarrow>
          let (s1, calls1) = accept_client s accepted;
              (s2, cmd, calls2) = fold (poll_client rd) [0..<MAX_CLIENTS] (s1, IPC_CMD_NONE, calls1)
          in (Some s2, cmd, calls2))"

section \<open>The client table\<close>

definition live :: "int list \<Rightarrow> int list" where
  "live fds = filter (\<lambda>fd. fd \<ge> 0) fds"

text \<open>The table has four slots and \<open>num_clients\<close> counts those in use.\<close>

definition wf_server :: "ipc_server \<Rightarrow> bool" where
  "wf_server s \<longleftrightarrow> length (client_fds s) = MAX_CLIENTS \<and>
     num_clients s = int (length (live (client_fds s)))"

definition closed :: "ipc_call list \<Rightarrow> int list" where
  "closed calls = concat (map (\<lambda>c. case c of Close fd \<Rightarrow> [fd] | _ \<Rightarrow> []) calls)"

lemma closed_simps [simp]:
  "closed [] = []" "closed (a @ b) = closed a @ closed b" "closed (Nonblock fd # cs) = closed cs"
  "closed (Close fd # cs) = fd # closed cs"
  by (simp_all add: closed_def)

lemma live_simps [simp]:
  "live [] = []" "live (fd # fds) = (if fd \<ge> 0 then fd # live fds else live fds)"
  by (simp_all add: live_def)

lemma mset_live_update:
  "i < length fds \<Longrightarrow> mset (live (fds[i := x])) + (if fds ! i \<ge> 0 then {#fds ! i#} else {#}) =
     mset (live fds) + (if x \<ge> 0 then {#x#} else {#})"
proof (induction fds arbitrary: i)
  case (Cons a fds)
  show ?case
  proof (cases i)
    case (Suc j)
    then show ?thesis using Cons.IH [of j] Cons.prems by (auto split: if_splits)
  qed auto
qed simp

lemma free_slot_Some: "free_slot fds = Some i \<Longrightarrow> i < length fds \<and> fds ! i < 0"
  by (induction fds arbitrary: i) (auto split: if_splits)

lemma free_slot_None: "free_slot fds = None \<Longrightarrow> \<forall>fd \<in> set fds. 0 \<le> fd"
  by (induction fds) (auto split: if_splits)

definition all_fds :: "ipc_server \<Rightarrow> ipc_call list \<Rightarrow> int multiset" where
  "all_fds s calls = mset (live (client_fds s)) + mset (closed calls)"

lemma length_live: "int (length (live fds)) = int (size (mset (live fds)))"
  by simp

lemma close_client_spec:
  assumes "wf_server srv" "i < MAX_CLIENTS" "close_client srv i = (srv', cs)"
  shows "wf_server srv' \<and> listen_fd srv' = listen_fd srv \<and> all_fds srv' (calls @ cs) = all_fds srv calls"
proof (cases "0 \<le> client_fds srv ! i")
  case True
  then have m: "mset (live ((client_fds srv)[i := -1])) + {#client_fds srv ! i#} = mset (live (client_fds srv))"
    using mset_live_update [of i "client_fds srv" "-1"] assms(1,2) by (simp add: wf_server_def)
  then have "length (live ((client_fds srv)[i := -1])) + 1 = length (live (client_fds srv))"
    by (metis size_mset size_add_mset add_mset_add_single Suc_eq_plus1)
  then show ?thesis
    using True assms m by (auto simp: close_client_def wf_server_def all_fds_def)
qed (use assms in \<open>auto simp: close_client_def\<close>)

lemma accept_client_spec:
  assumes "wf_server srv" "accept_client srv fd = (srv', cs)"
  shows "wf_server srv' \<and> listen_fd srv' = listen_fd srv \<and>
    all_fds srv' cs = mset (live (client_fds srv)) + (if fd \<ge> 0 then {#fd#} else {#})"
proof (cases "free_slot (client_fds srv)")
  case None
  then show ?thesis using assms by (auto simp: accept_client_def all_fds_def split: if_splits)
next
  case (Some i)
  then have i: "i < length (client_fds srv)" "client_fds srv ! i < 0" using free_slot_Some by auto
  show ?thesis
  proof (cases "fd \<ge> 0")
    case True
    then have m: "mset (live ((client_fds srv)[i := fd])) = mset (live (client_fds srv)) + {#fd#}"
      using mset_live_update [of i "client_fds srv" fd] i by simp
    then have "length (live ((client_fds srv)[i := fd])) = length (live (client_fds srv)) + 1"
      by (metis size_mset size_add_mset add_mset_add_single Suc_eq_plus1)
    then show ?thesis
      using True Some assms m by (auto simp: accept_client_def wf_server_def all_fds_def)
  qed (use assms in \<open>auto simp: accept_client_def all_fds_def\<close>)
qed

lemma poll_client_spec:
  assumes "wf_server srv" "i < MAX_CLIENTS" "poll_client rd i (srv, cmd, calls) = (srv', cmd', calls')"
  shows "wf_server srv' \<and> listen_fd srv' = listen_fd srv \<and> all_fds srv' calls' = all_fds srv calls"
proof -
  obtain s2 cs where c: "close_client srv i = (s2, cs)" by fastforce
  have "(srv', calls') = (srv, calls) \<or> (srv', calls') = (s2, calls @ cs)"
    using assms(3) c by (simp add: poll_client_def split: if_splits read_result.splits)
  then show ?thesis using close_client_spec [OF assms(1,2) c, of calls] assms(1) by auto
qed

lemma poll_clients_spec:
  assumes "wf_server srv" "set is \<subseteq> {..<MAX_CLIENTS}" "fold (poll_client rd) is (srv, cmd, calls) = (srv', cmd', calls')"
  shows "wf_server srv' \<and> listen_fd srv' = listen_fd srv \<and> all_fds srv' calls' = all_fds srv calls"
  using assms
proof (induction "is" arbitrary: srv cmd calls)
  case (Cons i "is")
  obtain s1 c1 l1 where one: "poll_client rd i (srv, cmd, calls) = (s1, c1, l1)" by (metis prod_cases3)
  with Cons.prems poll_client_spec [OF Cons.prems(1) _ one] Cons.IH [of s1 c1 l1] show ?case by auto
qed simp

section \<open>Properties\<close>

text \<open>
  C20: Polling loses no client and closes no descriptor twice: after \<open>ipc_server_poll\<close> every
  descriptor that was in the table or was just accepted is either still in the table or was closed,
  once, and \<open>num_clients\<close> still counts the table.
\<close>

theorem ipc_poll_accounts:
  assumes "wf_server s" "ipc_server_poll accepted rd (Some s) = (srv', cmd, calls)"
  shows "\<exists>s'. srv' = Some s' \<and> wf_server s' \<and> listen_fd s' = listen_fd s \<and>
    mset (live (client_fds s')) + mset (closed calls) =
      mset (live (client_fds s)) + (if accepted \<ge> 0 then {#accepted#} else {#})"
proof -
  obtain s1 l1 where a: "accept_client s accepted = (s1, l1)" by fastforce
  obtain s2 c2 l2 where f: "fold (poll_client rd) [0..<MAX_CLIENTS] (s1, IPC_CMD_NONE, l1) = (s2, c2, l2)"
    by (metis prod_cases3)
  have "srv' = Some s2" "calls = l2" using assms(2) a f by (auto simp: ipc_server_poll_def Let_def)
  then show ?thesis
    using accept_client_spec [OF assms(1) a] poll_clients_spec [OF _ _ f] by (simp add: all_fds_def subset_iff)
qed

text \<open>A connected server with one client, for the witnesses.\<close>

definition demo_server :: ipc_server where
  "demo_server = \<lparr>listen_fd = 3, client_fds = [-1, 7, -1, -1], num_clients = 1\<rparr>"

lemma demo_server_wf: "wf_server demo_server"
  by (simp add: wf_server_def demo_server_def)

lemma ipc_poll_accounts_witness:
  "\<exists>s'. fst (ipc_server_poll 9 (\<lambda>_. Data []) (Some demo_server)) = Some s' \<and> wf_server s'"
  using ipc_poll_accounts [OF demo_server_wf, of 9 "\<lambda>_. Data []"] by (metis prod_cases3 fst_conv)

text \<open>
  C21: The server's life cycle leaks nothing: a failed \<open>ipc_server_create\<close> has closed its socket,
  removed the socket file where it had bound it, and freed its memory; a created server has an
  empty client table; destroying a server closes every client and the listening socket once.
\<close>

theorem ipc_lifecycle_leaks_nothing:
  assumes "wf_server s" "0 \<le> listen_fd s"
  shows "(case ipc_server_create mem fd bind_ok sudo listen_ok of
      (None, calls) \<Rightarrow> closed calls = (if mem \<and> 0 \<le> fd then [fd] else []) \<and>
        (mem \<longrightarrow> last calls = Free_Server) \<and> (Bind fd True \<in> set calls \<longrightarrow> calls ! (length calls - 2) = Unlink_Sock)
    | (Some new, calls) \<Rightarrow> wf_server new \<and> listen_fd new = fd \<and> live (client_fds new) = [] \<and> closed calls = []) \<and>
    mset (closed (ipc_server_destroy (Some s))) = add_mset (listen_fd s) (mset (live (client_fds s)))"
proof -
  have "closed (map Close fds) = fds" for fds by (induction fds) simp_all
  moreover have "closed [Unlink_Sock, Free_Server] = []" by (simp add: closed_def)
  ultimately have "mset (closed (ipc_server_destroy (Some s))) = add_mset (listen_fd s) (mset (live (client_fds s)))"
    using assms(2) by (simp add: ipc_server_destroy_def live_def)
  moreover have "live (replicate 4 (-1)) = []" by (simp add: live_def)
  ultimately show ?thesis
    by (cases mem; cases "fd < 0"; cases bind_ok; cases listen_ok; cases sudo)
      (simp_all add: ipc_server_create_def wf_server_def closed_def)
qed

lemma ipc_lifecycle_leaks_nothing_witness:
  "mset (closed (ipc_server_destroy (Some demo_server))) = {#3, 7#}"
  using ipc_lifecycle_leaks_nothing [OF demo_server_wf] by (simp add: demo_server_def)

text \<open>The texts that a poll finds in the buffers of the connected clients.\<close>

definition text_of :: "(int \<Rightarrow> read_result) \<Rightarrow> int \<Rightarrow> string" where
  "text_of rd fd = (case rd fd of Data text \<Rightarrow> c_string (take (IPC_BUF_SIZE - 1) text) | _ \<Rightarrow> [])"

lemma poll_client_command:
  "fst (snd (poll_client rd i (srv, cmd, calls))) =
     (if client_fds srv ! i < 0 then cmd else command_of (text_of rd (client_fds srv ! i)) cmd)"
  by (auto simp: poll_client_def text_of_def c_string_def command_of_def quote_def split: read_result.splits prod.splits)

lemma poll_client_other_slots:
  "j \<noteq> i \<Longrightarrow> client_fds (fst (poll_client rd i (srv, cmd, calls))) ! j = client_fds srv ! j"
  by (auto simp: poll_client_def close_client_def split: read_result.splits)

lemma poll_clients_command:
  assumes "distinct is"
  shows "fst (snd (fold (poll_client rd) is (srv, cmd, calls))) =
    fold (\<lambda>i c. if client_fds srv ! i < 0 then c else command_of (text_of rd (client_fds srv ! i)) c) is cmd"
  using assms
proof (induction "is" arbitrary: srv cmd calls)
  case (Cons i "is")
  obtain s1 c1 l1 where one: "poll_client rd i (srv, cmd, calls) = (s1, c1, l1)" by (metis prod_cases3)
  have "client_fds s1 ! j = client_fds srv ! j" if "j \<in> set is" for j
    using poll_client_other_slots [of j i rd srv cmd calls] one that Cons.prems by auto
  then have "fold (\<lambda>i c. if client_fds s1 ! i < 0 then c else command_of (text_of rd (client_fds s1 ! i)) c) is c1 =
      fold (\<lambda>i c. if client_fds srv ! i < 0 then c else command_of (text_of rd (client_fds srv ! i)) c) is c1"
    by (intro fold_cong) auto
  then show ?case
    using Cons.IH [of s1 c1 l1] Cons.prems one poll_client_command [of rd i srv cmd calls] by simp
qed simp

lemma command_of_alt: "command_of t c = (if command_of t 0 = 0 then c else command_of t 0)"
  by (simp add: command_of_def)

lemma fold_commands:
  "if fold (\<lambda>i c. if skip i then c else command_of (t i) c) is 0 = 0
   then \<forall>i \<in> set is. \<not> skip i \<longrightarrow> command_of (t i) 0 = 0
   else \<exists>i \<in> set is. \<not> skip i \<and> command_of (t i) 0 = fold (\<lambda>i c. if skip i then c else command_of (t i) c) is 0"
proof (induction "is" rule: rev_induct)
  case (snoc i "is")
  let ?r = "fold (\<lambda>i c. if skip i then c else command_of (t i) c) is 0"
  show ?case
  proof (cases "skip i \<or> command_of (t i) 0 = 0")
    case True
    then have "fold (\<lambda>i c. if skip i then c else command_of (t i) c) (is @ [i]) 0 = ?r"
      using command_of_alt [of "t i" ?r] by auto
    then show ?thesis using snoc True by (auto split: if_splits)
  next
    case False
    then have "fold (\<lambda>i c. if skip i then c else command_of (t i) c) (is @ [i]) 0 = command_of (t i) 0"
      using command_of_alt [of "t i" ?r] by simp
    then show ?thesis using False by auto
  qed
qed simp

lemma poll_command:
  assumes "ipc_server_poll accepted rd (Some s) = (srv', cmd, calls)"
    and "fds = client_fds (fst (accept_client s accepted))"
  shows "if cmd = IPC_CMD_NONE then \<forall>i < MAX_CLIENTS. fds ! i \<ge> 0 \<longrightarrow> command_of (text_of rd (fds ! i)) 0 = 0
    else \<exists>i < MAX_CLIENTS. fds ! i \<ge> 0 \<and> command_of (text_of rd (fds ! i)) 0 = cmd"
proof -
  obtain s1 l1 where a: "accept_client s accepted = (s1, l1)" by fastforce
  have "cmd = fst (snd (fold (poll_client rd) [0..<MAX_CLIENTS] (s1, 0, l1)))"
    using assms(1) a by (auto simp: ipc_server_poll_def Let_def split: prod.splits)
  then have cmd: "cmd = fold (\<lambda>i c. if fds ! i < 0 then c else command_of (text_of rd (fds ! i)) c) [0..<MAX_CLIENTS] 0"
    unfolding assms(2) a fst_conv
    using poll_clients_command [of "[0..<MAX_CLIENTS]" rd s1 0 l1] by simp
  show ?thesis
    using fold_commands [of "\<lambda>i. fds ! i < 0" "\<lambda>i. text_of rd (fds ! i)" "[0..<MAX_CLIENTS]", folded cmd]
    by (auto simp: not_less split: if_splits)
qed


lemma demo_stop_poll:
  "ipc_server_poll (-1) (\<lambda>_. Data (''{'' @ quote @ ''stop'' @ quote @ ''}'')) (Some demo_server) =
     (Some demo_server, 1, [])"
  by (simp add: ipc_server_poll_def accept_client_def poll_client_def demo_server_def command_of_def
      c_string_def quote_def upt_rec Let_def)


text \<open>
  A state message is never cut off: for addresses and interface names that fit their arrays every
  connected client gets one write, of a line that ends with its newline.
\<close>

theorem state_message_whole:
  assumes "length state \<le> 16" "length ip \<le> 15" "length iface \<le> 15"
  shows "ipc_server_send_state written (Some s) state (Some (ip, iface)) =
      map (\<lambda>fd. Write_Fd fd (state_json state (Some (ip, iface)))) (live (client_fds s)) \<and>
    last (state_json state (Some (ip, iface))) = CHR 0x0A"
proof -
  have whole: "last (state_json state (Some (ip, iface))) = CHR 0x0A" "state_json state (Some (ip, iface)) \<noteq> []"
    using assms by (simp_all add: state_json_def snprintf_def quote_def newline_def)
  then have "send_to_client written fd (state_json state (Some (ip, iface))) =
      [Write_Fd fd (state_json state (Some (ip, iface)))]" for fd
    by (simp add: send_to_client_def last_conv_nth)
  then have "concat (map (\<lambda>fd. if fd \<ge> 0 then send_to_client written fd (state_json state (Some (ip, iface))) else []) fds) =
      map (\<lambda>fd. Write_Fd fd (state_json state (Some (ip, iface)))) (live fds)" for fds
    by (induction fds) simp_all
  then have "send_to_all written s (state_json state (Some (ip, iface))) =
      map (\<lambda>fd. Write_Fd fd (state_json state (Some (ip, iface)))) (live (client_fds s))"
    by (simp add: send_to_all_def)
  with whole(1) show ?thesis by (simp add: ipc_server_send_state_def)
qed

lemma state_message_whole_witness:
  "ipc_server_send_state (\<lambda>_ _. -1) (Some demo_server) ''connected'' (Some (''192.168.42.100'', ''utun5'')) =
     [Write_Fd 7 (state_json ''connected'' (Some (''192.168.42.100'', ''utun5'')))]"
  using state_message_whole [of "''connected''" "''192.168.42.100''" "''utun5''" "\<lambda>_ _. -1" demo_server]
  by (simp add: demo_server_def)

section \<open>Commands that a poll drops\<close>

text \<open>
  The protocol is one JSON object per line, but a poll looks for the command words in all that a
  read returns: of two messages that arrive together only one counts, by the order of the tests and
  not by their order.  And a later client's command replaces that of an earlier one, also a stop.
\<close>

lemma later_enable_ignored:
  "command_of (''{'' @ quote @ ''disable'' @ quote @ ''}'' @ newline @ ''{'' @ quote @ ''enable'' @ quote @ ''}'' @ newline) 0 =
     IPC_CMD_DISABLE"
  by (simp add: command_of_def quote_def newline_def)

lemma stop_replaced_by_other_client:
  "fst (snd (ipc_server_poll (-1)
      (\<lambda>fd. if fd = 7 then Data (quote @ ''stop'' @ quote) else Data (quote @ ''enable'' @ quote))
      (Some \<lparr>listen_fd = 3, client_fds = [7, 8, -1, -1], num_clients = 2\<rparr>))) = IPC_CMD_ENABLE"
  by (simp add: ipc_server_poll_def accept_client_def poll_client_def command_of_def c_string_def
      quote_def upt_rec Let_def)

end
