(* ===== verification/Utun.thy ===== *)
theory Utun
  imports Stats
begin

text \<open>
  \<^verbatim>\<open>src/utun.c\<close>: the utun interface, and the shell commands that configure addresses, routes, DNS and
  the network service.  \<open>system\<close> is a function \<open>sh\<close> from the command to its exit status; every
  operation returns the commands it ran, in order.  What the commands do to the host is not modelled.
\<close>

section \<open>The interface\<close>

definition UTUN_MTU :: nat where [simp]: "UTUN_MTU = 1500"

record utun =
  tun_fd :: int
  unit_no :: nat
  ifname :: string

definition zero_utun :: utun where
  "zero_utun = \<lparr>tun_fd = 0, unit_no = 0, ifname = []\<rparr>"

datatype utun_call =
    Control_Socket int | Control_Info bool | Connect_Unit nat bool | Socket_Buffers | Set_Nonblocking | Close_Fd int

text \<open>The loop over the units: the calls made and the first unit that could be connected.\<close>

fun connect_loop :: "(nat \<Rightarrow> bool) \<Rightarrow> nat list \<Rightarrow> nat option \<times> utun_call list" where
  "connect_loop connects [] = (None, [])"
| "connect_loop connects (u # us) =
     (if connects u then (Some u, [Connect_Unit u True])
      else let (r, cs) = connect_loop connects us in (r, Connect_Unit u False # cs))"

text \<open>
  The arguments are the descriptor \<open>socket\<close> returns, whether \<open>ioctl\<close> succeeds, which units can be
  connected, and the result of \<open>fcntl (F_GETFL)\<close>.
\<close>

definition utun_create :: "int \<Rightarrow> bool \<Rightarrow> (nat \<Rightarrow> bool) \<Rightarrow> int \<Rightarrow> int \<times> utun \<times> utun_call list" where
  "utun_create fd info_ok connects flags =
     (if fd < 0 then (-1, zero_utun, [Control_Socket fd])
      else if \<not> info_ok then (-1, zero_utun, [Control_Socket fd, Control_Info False, Close_Fd fd])
      else let (found, cs) = connect_loop connects [0..<256]
           in case found of
                None \<Rightarrow> (-1, zero_utun, [Control_Socket fd, Control_Info True] @ cs @ [Close_Fd fd])
              | Some u \<Rightarrow>
                  (0, \<lparr>tun_fd = fd, unit_no = u, ifname = snprintf 16 (''utun'' @ decimal u)\<rparr>,
                   [Control_Socket fd, Control_Info True] @ cs @ [Socket_Buffers] @
                   (if flags \<ge> 0 then [Set_Nonblocking] else [])))"

text \<open>What \<open>read\<close> and \<open>write\<close> on the descriptor answer.\<close>

datatype 'a io_result = Io 'a | Would_Block | Io_Error

definition utun_read :: "buffer io_result \<Rightarrow> buffer \<Rightarrow> nat \<Rightarrow> (int \<times> buffer) run" where
  "utun_read answer buf buf_size =
     (case answer of
        Io bs \<Rightarrow> let got = take buf_size bs
                 in bindR (wr_bytes buf 0 got) (\<lambda>buf'. Inr (c_int (length got), buf'))
      | Would_Block \<Rightarrow> Inr (0, buf)
      | Io_Error \<Rightarrow> Inr (-1, buf))"

definition utun_write :: "nat io_result \<Rightarrow> buffer \<Rightarrow> nat \<Rightarrow> int run" where
  "utun_write answer buf len =
     bindR (rd_bytes buf 0 len) (\<lambda>_.
       Inr (case answer of Io n \<Rightarrow> c_int (min n len) | Would_Block \<Rightarrow> 0 | Io_Error \<Rightarrow> -1))"

definition utun_close :: "utun \<Rightarrow> utun \<times> utun_call list" where
  "utun_close tun = (if tun_fd tun \<ge> 0 then (tun\<lparr>tun_fd := -1\<rparr>, [Close_Fd (tun_fd tun)]) else (tun, []))"

section \<open>Commands\<close>

definition utun_configure ::
    "(string \<Rightarrow> int) \<Rightarrow> utun \<Rightarrow> string \<Rightarrow> string \<Rightarrow> string \<Rightarrow> int \<times> string list" where
  "utun_configure sh tun local_ip remote_ip netmask =
     (let cmd = snprintf 512 (''ifconfig '' @ ifname tun @ '' inet '' @ local_ip @ '' '' @ remote_ip @
                  '' netmask '' @ netmask @ '' up'')
      in if sh cmd \<noteq> 0 then (-1, [cmd])
         else (0, [cmd, snprintf 512 (''ifconfig '' @ ifname tun @ '' mtu '' @ decimal UTUN_MTU)]))"

definition utun_set_default_route :: "(string \<Rightarrow> int) \<Rightarrow> string \<Rightarrow> int \<times> string list" where
  "utun_set_default_route sh gateway =
     (let cmd1 = snprintf 256 (''route add -net 0.0.0.0/1 '' @ gateway);
          cmd2 = snprintf 256 (''route add -net 128.0.0.0/1 '' @ gateway)
      in (if sh cmd1 = 0 \<and> sh cmd2 = 0 then 0 else -1, [cmd1, cmd2]))"

definition SERVICE_ID :: string where "SERVICE_ID = ''android-tether''"
definition DNS_BACKUP_FILE :: string where "DNS_BACKUP_FILE = ''/tmp/.android-tether-dns-backup''"

definition here_doc :: string where
  "here_doc = ''scutil <<'' @ [CHR 0x27] @ ''EOF'' @ [CHR 0x27]"

definition service_key :: "string \<Rightarrow> string" where
  "service_key part = ''State:/Network/Service/'' @ SERVICE_ID @ part"

text \<open>\<open>dns2\<close> is a pointer that may be null.\<close>

definition servers :: "string \<Rightarrow> string option \<Rightarrow> string" where
  "servers dns1 dns2 = dns1 @ (case dns2 of None \<Rightarrow> [] | Some d \<Rightarrow> '' '' @ d)"

definition utun_register_service ::
    "utun \<Rightarrow> string \<Rightarrow> string \<Rightarrow> string \<Rightarrow> string \<Rightarrow> string option \<Rightarrow> int \<times> string list" where
  "utun_register_service tun ip gateway netmask dns1 dns2 = (0,
     [snprintf 2048 (here_doc @ newline @ ''d.init'' @ newline @
        ''d.add Addresses * '' @ ip @ newline @ ''d.add SubnetMasks * '' @ netmask @ newline @
        ''d.add Router '' @ gateway @ newline @ ''d.add InterfaceName '' @ ifname tun @ newline @
        ''set '' @ service_key ''/IPv4'' @ newline @ ''quit'' @ newline @ ''EOF''),
      snprintf 2048 (here_doc @ newline @ ''d.init'' @ newline @
        ''d.add DeviceName '' @ ifname tun @ newline @ ''d.add Type utun'' @ newline @
        ''set '' @ service_key ''/Interface'' @ newline @ ''quit'' @ newline @ ''EOF''),
      snprintf 2048 (here_doc @ newline @ ''d.init'' @ newline @
        ''d.add ServerAddresses * '' @ servers dns1 dns2 @ newline @
        ''d.add SupplementalMatchDomains * '' @ quote @ quote @ newline @
        ''d.add SearchOrder # 1'' @ newline @
        ''set '' @ service_key ''/DNS'' @ newline @ ''quit'' @ newline @ ''EOF'')])"

definition utun_unregister_service :: "string list" where
  "utun_unregister_service =
     [here_doc @ '' 2>/dev/null'' @ newline @
      ''remove '' @ service_key ''/IPv4'' @ newline @ ''remove '' @ service_key ''/DNS'' @ newline @
      ''remove '' @ service_key ''/Interface'' @ newline @ ''quit'' @ newline @ ''EOF'']"

definition flush_dns :: "string list" where
  "flush_dns = [''dscacheutil -flushcache 2>/dev/null'', ''killall -HUP mDNSResponder 2>/dev/null'']"

definition utun_set_dns :: "string \<Rightarrow> string option \<Rightarrow> int \<times> string list" where
  "utun_set_dns dns1 dns2 = (0,
     [snprintf 1024 (here_doc @ '' > '' @ DNS_BACKUP_FILE @ '' 2>/dev/null'' @ newline @
        ''show State:/Network/Global/DNS'' @ newline @ ''quit'' @ newline @ ''EOF''),
      snprintf 1024 (here_doc @ newline @ ''d.init'' @ newline @
        ''d.add ServerAddresses * '' @ servers dns1 dns2 @ newline @
        ''set State:/Network/Global/DNS'' @ newline @ ''quit'' @ newline @ ''EOF'')] @ flush_dns)"

text \<open>The commands, and the file that is removed after them.\<close>

definition utun_restore_dns :: "string list \<times> string" where
  "utun_restore_dns =
     ([here_doc @ '' 2>/dev/null'' @ newline @ ''remove State:/Network/Global/DNS'' @ newline @
       ''quit'' @ newline @ ''EOF''] @ flush_dns, DNS_BACKUP_FILE)"

section \<open>Properties\<close>

text \<open>A unit of a list that connects, when none before it does.\<close>

definition first_in :: "(nat \<Rightarrow> bool) \<Rightarrow> nat list \<Rightarrow> nat \<Rightarrow> bool" where
  "first_in connects us u \<longleftrightarrow>
     (\<exists>before after. us = before @ u # after \<and> connects u \<and> (\<forall>v \<in> set before. \<not> connects v))"

lemma first_in_here: "connects u \<Longrightarrow> first_in connects (u # us) u"
  unfolding first_in_def by (metis append_Nil empty_iff empty_set)

lemma first_in_later: "first_in connects us u \<Longrightarrow> \<not> connects v \<Longrightarrow> first_in connects (v # us) u"
  unfolding first_in_def by (metis append_Cons set_ConsD)

lemma connect_loop_spec:
  "connect_loop connects us = (r, cs) \<Longrightarrow>
     (case r of None \<Rightarrow> \<forall>u \<in> set us. \<not> connects u | Some u \<Rightarrow> first_in connects us u) \<and>
     (\<forall>fd. Close_Fd fd \<notin> set cs)"
proof (induction us arbitrary: r cs)
  case (Cons u us)
  obtain r' cs' where l: "connect_loop connects us = (r', cs')" by fastforce
  from Cons.IH [OF l] Cons.prems l show ?case
    by (cases "connects u") (auto simp: first_in_here first_in_later split: option.splits)
qed simp

lemma upt_split:
  assumes "[0..<n] = before @ u # after"
  shows "u < n \<and> set before = {..<u}"
proof -
  have len: "length before < n" using arg_cong [OF assms, of length] by simp
  then have "before = [0..<length before]"
    using arg_cong [OF assms, of "take (length before)"] by (simp add: take_upt)
  moreover have "u = length before"
    using arg_cong [OF assms, of "\<lambda>l. l ! length before"] len by simp
  ultimately show ?thesis using len by (metis atLeast_upt)
qed

lemma first_unit:
  "first_in connects [0..<n] u \<Longrightarrow> u < n \<and> connects u \<and> (\<forall>v < u. \<not> connects v)"
  unfolding first_in_def by (metis upt_split lessThan_iff)

text \<open>
  C39: \<open>utun_create\<close> takes the first free unit and leaks no socket: on 0 the interface is named after
  the least of the 256 units that can be connected and its socket is open; on -1 the socket, where
  there was one, is closed, and no unit can be connected unless the control lookup had failed.
\<close>

theorem utun_create_first_unit:
  assumes "utun_create fd info_ok connects flags = (r, tun, calls)"
  shows "(r = 0 \<and> tun_fd tun = fd \<and> 0 \<le> fd \<and> unit_no tun < 256 \<and> connects (unit_no tun) \<and>
      (\<forall>v < unit_no tun. \<not> connects v) \<and> ifname tun = snprintf 16 (''utun'' @ decimal (unit_no tun)) \<and>
      (\<forall>c. Close_Fd c \<notin> set calls)) \<or>
    (r = -1 \<and> (0 \<le> fd \<longrightarrow> last calls = Close_Fd fd \<and> (info_ok \<longrightarrow> (\<forall>u < 256. \<not> connects u))))"
proof -
  obtain found cs where l: "connect_loop connects [0..<256] = (found, cs)" by fastforce
  from connect_loop_spec [OF l] show ?thesis
    using assms l
    by (auto simp: utun_create_def Let_def split: if_splits option.splits dest!: first_unit)
qed

lemma utun_create_first_unit_witness:
  "\<exists>tun calls. utun_create 5 True (\<lambda>u. 3 \<le> u) 0 = (0, tun, calls) \<and> unit_no tun = 3"
proof -
  obtain r tun calls where c: "utun_create 5 True (\<lambda>u. 3 \<le> u) 0 = (r, tun, calls)" by (metis prod_cases3)
  have "r = 0" and "3 \<le> unit_no tun" and "\<not> 3 < unit_no tun"
    using utun_create_first_unit [OF c] by (auto dest: spec [of _ 3])
  with c show ?thesis by auto
qed

text \<open>Texts as DHCP and \<open>utun_create\<close> make them: an address, and an interface name.\<close>

definition address_text :: "string \<Rightarrow> bool" where
  "address_text s \<longleftrightarrow> length s \<le> 15 \<and> list_all (\<lambda>c. c \<in> set ''0123456789.'') s"

definition iface_text :: "string \<Rightarrow> bool" where
  "iface_text s \<longleftrightarrow> length s \<le> 15 \<and> list_all (\<lambda>c. c \<in> set ''utn0123456789'') s"

text \<open>Characters without a meaning for the shell.\<close>

definition harmless :: "char \<Rightarrow> bool" where
  "harmless c \<longleftrightarrow> c \<in> set ''abcdefghijklmnopqrstuvwxyz0123456789./- ''"

lemma harmless_chars:
  "list_all harmless ''0123456789.''" "list_all harmless ''utn0123456789''"
  "list_all harmless ''ifconfig ''" "list_all harmless '' inet ''" "list_all harmless '' ''"
  "list_all harmless '' netmask ''" "list_all harmless '' up''" "list_all harmless '' mtu 1500''"
  "list_all harmless ''route add -net 0.0.0.0/1 ''" "list_all harmless ''route add -net 128.0.0.0/1 ''"
  by code_simp+

lemma harmless_of: "list_all (\<lambda>c. c \<in> set cs) s \<Longrightarrow> list_all harmless cs \<Longrightarrow> list_all harmless s"
  by (simp add: list_all_iff)

lemma address_harmless: "address_text s \<Longrightarrow> list_all harmless s"
  unfolding address_text_def using harmless_of [OF _ harmless_chars(1)] by blast

lemma iface_harmless: "iface_text s \<Longrightarrow> list_all harmless s"
  unfolding iface_text_def using harmless_of [OF _ harmless_chars(2)] by blast

lemma snprintf_fits: "length s < n \<Longrightarrow> snprintf n s = s"
  by (simp add: snprintf_def)

text \<open>
  C40: With addresses from DHCP the commands for the interface and the routes are exactly the ones
  meant: none is cut off by its buffer, and none holds a character that the shell interprets, so that
  a device cannot make the daemon run anything else.
\<close>

theorem interface_commands_exact:
  assumes "iface_text (ifname tun)" "address_text ip" "address_text gateway" "address_text netmask"
  shows "(let (r, cmds) = utun_configure sh tun ip gateway netmask
      in hd cmds = ''ifconfig '' @ ifname tun @ '' inet '' @ ip @ '' '' @ gateway @ '' netmask '' @ netmask @ '' up'' \<and>
         (r = 0 \<longleftrightarrow> sh (hd cmds) = 0) \<and> length cmds = (if r = 0 then 2 else 1) \<and>
         list_all (list_all harmless) cmds) \<and>
    (let (r, cmds) = utun_set_default_route sh gateway
     in cmds = [''route add -net 0.0.0.0/1 '' @ gateway, ''route add -net 128.0.0.0/1 '' @ gateway] \<and>
        (r = 0 \<longleftrightarrow> (\<forall>c \<in> set cmds. sh c = 0)) \<and> list_all (list_all harmless) cmds)"
proof -
  have len: "length (ifname tun) \<le> 15" "length ip \<le> 15" "length gateway \<le> 15" "length netmask \<le> 15"
    using assms by (simp_all add: iface_text_def address_text_def)
  have mtu: "decimal UTUN_MTU = ''1500''" by code_simp
  define cmd where
    "cmd = ''ifconfig '' @ ifname tun @ '' inet '' @ ip @ '' '' @ gateway @ '' netmask '' @ netmask @ '' up''"
  have cmd: "snprintf 512 cmd = cmd" using len by (intro snprintf_fits) (simp add: cmd_def)
  have m: "snprintf 512 (''ifconfig '' @ ifname tun @ '' mtu '' @ ''1500'') =
      ''ifconfig '' @ ifname tun @ '' mtu 1500''" using len by (simp add: snprintf_fits)
  have r: "snprintf 256 (''route add -net 0.0.0.0/1 '' @ gateway) = ''route add -net 0.0.0.0/1 '' @ gateway"
      "snprintf 256 (''route add -net 128.0.0.0/1 '' @ gateway) = ''route add -net 128.0.0.0/1 '' @ gateway"
    using len by (simp_all add: snprintf_fits)
  have safe: "list_all harmless cmd" "list_all harmless (''ifconfig '' @ ifname tun @ '' mtu 1500'')"
      "list_all harmless (''route add -net 0.0.0.0/1 '' @ gateway)"
      "list_all harmless (''route add -net 128.0.0.0/1 '' @ gateway)"
    unfolding cmd_def list_all_append
    using assms(1) [THEN iface_harmless] assms(2-4) [THEN address_harmless] harmless_chars by blast+
  show ?thesis
    unfolding utun_configure_def utun_set_default_route_def cmd_def [symmetric] mtu cmd m r Let_def
    using safe by simp
qed

lemma interface_commands_exact_witness:
  "snd (utun_set_default_route (\<lambda>_. 0) ''192.168.42.129'') =
     [''route add -net 0.0.0.0/1 '' @ ''192.168.42.129'', ''route add -net 128.0.0.0/1 '' @ ''192.168.42.129'']"
proof -
  have t: "iface_text (ifname (zero_utun\<lparr>ifname := ''utun5''\<rparr>))" "address_text ''192.168.42.100''"
      "address_text ''192.168.42.129''" "address_text ''255.255.255.0''" by code_simp+
  show ?thesis
    using interface_commands_exact [OF t, of "\<lambda>_. 0"] unfolding split_beta Let_def by blast
qed

section \<open>What the commands do not check\<close>

text \<open>
  A netmask or gateway from the configuration file or the command line goes to the shell as it is
  (only the address itself is checked, by \<open>inet_pton\<close>).
\<close>

lemma netmask_reaches_shell:
  "hd (snd (utun_configure sh (zero_utun\<lparr>ifname := ''utun5''\<rparr>) ''10.0.0.2'' ''10.0.0.1'' ''0;reboot'')) =
     ''ifconfig utun5 inet 10.0.0.2 10.0.0.1 netmask 0;reboot up''"
proof -
  have "snprintf 512 (''ifconfig '' @ ''utun5'' @ '' inet '' @ ''10.0.0.2'' @ '' '' @ ''10.0.0.1'' @
      '' netmask '' @ ''0;reboot'' @ '' up'') = ''ifconfig utun5 inet 10.0.0.2 10.0.0.1 netmask 0;reboot up''"
    by code_simp
  then show ?thesis by (simp add: utun_configure_def Let_def)
qed

text \<open>
  \<open>utun_restore_dns\<close> does not read the backup that \<open>utun_set_dns\<close> writes: no command of it names the
  file, which is then removed.
\<close>

lemma dns_backup_never_read:
  "\<not> list_ex (occurs_in DNS_BACKUP_FILE) (fst utun_restore_dns) \<and>
   list_ex (occurs_in DNS_BACKUP_FILE) (snd (utun_set_dns ''8.8.8.8'' (Some ''8.8.4.4''))) \<and>
   snd utun_restore_dns = DNS_BACKUP_FILE"
  by code_simp

end
