(* ===== verification/Session.thy ===== *)
theory Session
  imports Dhcp_Client Arp Ipc Utun
begin

text \<open>
  \<open>run_session\<close> of \<^verbatim>\<open>src/main.c\<close> and the functions that undo it: finding the device, the RNDIS
  initialisation, the addresses, the interface, the host's network settings, the main loop of the
  session, and giving everything back.  Every call on the outside is logged in \<open>w_calls\<close>.  The two
  bridge threads are the theories \<open>Rx_Pool\<close>, \<open>Bridge_Rx\<close> and \<open>Bridge_Tx\<close>; here they are what the main
  thread sees of them, the shared flags and counters at each round of its loop.
\<close>

section \<open>Data\<close>

datatype session_call =
    Driver_New | Driver_Free
  | Usb usb_call
  | Tun utun_call
  | Shell string
  | Delete string
  | Ipc ipc_call
  | Keepalive int
  | Polled int
  | Tx_Alloc nat bool | Tx_Free nat bool
  | Threads_Start | Threads_Join

text \<open>\<open>Keepalive\<close> carries the time and \<open>Polled\<close> the command that a poll of the server returned.\<close>

text \<open>The static variables of \<^verbatim>\<open>main.c\<close>.\<close>

record globals =
  g_running :: bool
  g_no_route :: bool
  g_no_dns :: bool
  g_network_bound :: bool
  g_ui_pid :: int
  g_watch_mode :: bool
  g_watch_enabled :: bool

record 'd world =
  w_globals :: globals
  w_ipc :: "ipc_server option"
  w_dev :: 'd
  w_files :: files
  w_calls :: "session_call list"

record net_config =
  n_ip :: string
  n_gateway :: string
  n_netmask :: string
  n_dns1 :: string
  n_dns2 :: string

text \<open>
  One round of the main loop: whether a signal arrived and whether a bridge thread has cleared
  \<open>running\<close>, the time, the counters as they are loaded first and again, and the answers of the
  system calls.
\<close>

record tick =
  k_signal :: bool
  k_bridge_down :: bool
  k_now :: int
  k_tx_bytes :: "64 word"
  k_rx_bytes :: "64 word"
  k_tx_bytes2 :: "64 word"
  k_rx_bytes2 :: "64 word"
  k_tx_pkts :: "64 word"
  k_rx_pkts :: "64 word"
  k_stats_open :: bool
  k_ui_alive :: bool
  k_stop_file :: bool
  k_accepted :: int
  k_reads :: "int \<Rightarrow> read_result"

text \<open>
  The outside of one session: allocations, libusb, the uninitialised buffers, the answers of the
  system calls of \<open>utun_create\<close>, the shell, the rounds of the loop, what the threads report, and
  the floating point operations of the statistics.
\<close>

record ('d, 'f) session_env =
  s_drv_mem :: bool
  s_state_mem :: bool
  s_lib :: "'d libusb"
  s_usb_init :: bool
  s_usb_list :: "usb_env_device list option"
  s_ctrl_buf :: buffer
  s_rndis_buf :: buffer
  s_eth_buf :: buffer
  s_fuel :: nat
  s_signal_before :: bool
  s_signal_after :: bool
  s_socket :: int
  s_info :: bool
  s_connects :: "nat \<Rightarrow> bool"
  s_flags :: int
  s_shell :: "string \<Rightarrow> int"
  s_tx_alloc :: "nat \<Rightarrow> bool"
  s_ticks :: "tick list"
  s_disconnected :: bool
  s_rate :: "64 word \<Rightarrow> int \<Rightarrow> 'f"
  s_fmt2 :: "'f \<Rightarrow> string"
  s_written :: "int \<Rightarrow> string \<Rightarrow> int"

section \<open>The network state of the host\<close>

definition restore_network_state :: "globals \<Rightarrow> globals \<times> session_call list" where
  "restore_network_state g =
     (if \<not> g_network_bound g then (g, [])
      else (g\<lparr>g_network_bound := False\<rparr>,
        (if \<not> g_no_route g
         then [Shell ''route delete -net 0.0.0.0/1 2>/dev/null'', Shell ''route delete -net 128.0.0.0/1 2>/dev/null'']
         else []) @
        map Shell utun_unregister_service @
        (if \<not> g_no_dns g then map Shell (fst utun_restore_dns) @ [Delete (snd utun_restore_dns)] else [])))"

definition cleanup_at_exit :: "globals \<Rightarrow> files \<Rightarrow> globals \<times> files \<times> session_call list" where
  "cleanup_at_exit g fs = (let (g', calls) = restore_network_state g in (g', stats_cleanup fs, calls))"

definition signal_handler :: "globals \<Rightarrow> globals" where
  "signal_handler g = g\<lparr>g_running := False\<rparr>"

text \<open>The commands that bind the host to the interface, in the order they are run.\<close>

definition network_commands ::
    "(string \<Rightarrow> int) \<Rightarrow> bool \<Rightarrow> bool \<Rightarrow> utun \<Rightarrow> net_config \<Rightarrow> string list" where
  "network_commands sh no_route no_dns tun cfg =
     (if \<not> no_dns then
        snd (utun_set_dns (n_dns1 cfg) (Some (n_dns2 cfg))) @
        snd (utun_register_service tun (n_ip cfg) (n_gateway cfg) (n_netmask cfg) (n_dns1 cfg) (Some (n_dns2 cfg)))
      else if \<not> no_route then
        snd (utun_register_service tun (n_ip cfg) (n_gateway cfg) (n_netmask cfg) [] (Some []))
      else []) @
     (if \<not> no_route then snd (utun_set_default_route sh (n_gateway cfg)) else [])"

section \<open>Addresses\<close>

text \<open>\<open>p && p[0]\<close>\<close>

definition given :: "string option \<Rightarrow> bool" where
  "given p = (case p of None \<Rightarrow> False | Some s \<Rightarrow> s \<noteq> [])"

definition static_config :: "string option \<Rightarrow> string option \<Rightarrow> string \<Rightarrow> net_config" where
  "static_config ip gw nm =
     \<lparr>n_ip = strlcpy 16 (the ip),
      n_gateway = strlcpy 16 (if given gw then the gw else DEFAULT_GATEWAY),
      n_netmask = strlcpy 16 nm,
      n_dns1 = strlcpy 16 DEFAULT_DNS1, n_dns2 = strlcpy 16 DEFAULT_DNS2\<rparr>"

definition fallback_config :: net_config where
  "fallback_config =
     \<lparr>n_ip = strlcpy 16 DEFAULT_STATIC_IP, n_gateway = strlcpy 16 DEFAULT_GATEWAY,
      n_netmask = strlcpy 16 DEFAULT_NETMASK, n_dns1 = strlcpy 16 DEFAULT_DNS1, n_dns2 = strlcpy 16 DEFAULT_DNS2\<rparr>"

definition lease_config :: "dhcp_lease \<Rightarrow> net_config" where
  "lease_config l =
     \<lparr>n_ip = strlcpy 16 (l_ip l), n_gateway = strlcpy 16 (l_gateway l), n_netmask = strlcpy 16 (l_netmask l),
      n_dns1 = strlcpy 16 (l_dns1 l), n_dns2 = strlcpy 16 (l_dns2 l)\<rparr>"

definition choose_addresses ::
    "('d, 'f) session_env \<Rightarrow> usb_device \<Rightarrow> rndis_state \<Rightarrow> string option \<Rightarrow> string option \<Rightarrow> string \<Rightarrow> 'd \<Rightarrow>
     (net_config \<times> 'd) run" where
  "choose_addresses env usb st ip gw nm d =
     (if given ip then Inr (static_config ip gw nm, d)
      else bindR (dhcp_discover (s_fuel env) (s_lib env) usb (s_rndis_buf env) (s_eth_buf env) st empty_lease d)
        (\<lambda>(r, lease, d'). Inr (if r < 0 then fallback_config else lease_config lease, d')))"

section \<open>The main loop\<close>

text \<open>The local variables of the loop, \<open>running\<close> of the bridge context, and the driver's state.\<close>

record loop_state =
  lp_running :: bool
  last_keepalive :: int
  last_stats :: int
  prev_tx_bytes :: "64 word"
  prev_rx_bytes :: "64 word"
  lp_rndis :: rndis_state

definition act :: "session_call list \<Rightarrow> 'd world \<Rightarrow> 'd world" where
  "act calls w = w\<lparr>w_calls := w_calls w @ calls\<rparr>"

definition send_state ::
    "('d, 'f) session_env \<Rightarrow> string \<Rightarrow> (string \<times> string) option \<Rightarrow> 'd world \<Rightarrow> 'd world" where
  "send_state env state addr w = act (map Ipc (ipc_server_send_state (s_written env) (w_ipc w) state addr)) w"

text \<open>What happened since the last round: a signal, and the bridge threads.\<close>

definition observe :: "tick \<Rightarrow> loop_state \<times> 'd world \<Rightarrow> loop_state \<times> 'd world" where
  "observe k = (\<lambda>(lp, w).
     (lp\<lparr>lp_running := lp_running lp \<and> \<not> k_bridge_down k\<rparr>,
      if k_signal k then w\<lparr>w_globals := signal_handler (w_globals w)\<rparr> else w))"

definition keepalive_round ::
    "('d, 'f) session_env \<Rightarrow> ('d, unit) proto_driver \<Rightarrow> tick \<Rightarrow> loop_state \<times> 'd world \<Rightarrow> (loop_state \<times> 'd world) run" where
  "keepalive_round env drv k = (\<lambda>(lp, w).
     if k_now k - last_keepalive lp \<ge> 30 then
       (case drv_keepalive drv of
          None \<Rightarrow> Inr (lp\<lparr>last_keepalive := k_now k\<rparr>, w)
        | Some f \<Rightarrow>
            bindR (f (s_ctrl_buf env) (lp_rndis lp) (w_dev w)) (\<lambda>(_, st, d).
            Inr (lp\<lparr>lp_rndis := st, last_keepalive := k_now k\<rparr>, act [Keepalive (k_now k)] (w\<lparr>w_dev := d\<rparr>))))
     else Inr (lp, w))"

definition publish_stats ::
    "('d, 'f) session_env \<Rightarrow> tick \<Rightarrow> int \<Rightarrow> loop_state \<Rightarrow> 'd world \<Rightarrow> 'd world" where
  "publish_stats env k elapsed lp w =
     (let st = \<lparr>tx_mbps = s_rate env (k_tx_bytes k - prev_tx_bytes lp) elapsed,
                rx_mbps = s_rate env (k_rx_bytes k - prev_rx_bytes lp) elapsed,
                tx_bytes = k_tx_bytes k, rx_bytes = k_rx_bytes k,
                tx_pkts = k_tx_pkts k, rx_pkts = k_rx_pkts k\<rparr>
      in act (map Ipc (ipc_server_send_stats (s_written env) (w_ipc w) (s_fmt2 env) st))
           (w\<lparr>w_files := last (stats_write_json (k_stats_open k) (s_fmt2 env) st (w_files w))\<rparr>))"

definition stop_all :: "loop_state \<times> 'd world \<Rightarrow> loop_state \<times> 'd world" where
  "stop_all = (\<lambda>(lp, w). (lp\<lparr>lp_running := False\<rparr>, w\<lparr>w_globals := (w_globals w)\<lparr>g_running := False\<rparr>\<rparr>))"

definition ui_died :: "tick \<Rightarrow> globals \<Rightarrow> bool" where
  "ui_died k g = (g_ui_pid g > 0 \<and> \<not> k_ui_alive k)"

text \<open>Whether the stop file has appeared is the environment's; looking for it removes it.\<close>

definition poll_trigger :: "tick \<Rightarrow> 'd world \<Rightarrow> bool \<times> 'd world" where
  "poll_trigger k w =
     (let (r, fs) = stats_check_stop_trigger (if k_stop_file k then (w_files w)(STOP_TRIGGER_PATH \<mapsto> []) else w_files w)
      in (r \<noteq> 0, w\<lparr>w_files := fs\<rparr>))"

definition poll_ipc :: "tick \<Rightarrow> 'd world \<Rightarrow> int \<times> 'd world" where
  "poll_ipc k w =
     (let (srv, cmd, calls) = ipc_server_poll (k_accepted k) (k_reads k) (w_ipc w)
      in (cmd, act (map Ipc calls @ [Polled cmd]) (w\<lparr>w_ipc := srv\<rparr>)))"

definition session_command :: "int \<Rightarrow> loop_state \<times> 'd world \<Rightarrow> loop_state \<times> 'd world" where
  "session_command cmd = (\<lambda>(lp, w).
     if cmd = IPC_CMD_STOP \<or> cmd = IPC_CMD_DISABLE then
       let g1 = (if cmd = IPC_CMD_DISABLE then (w_globals w)\<lparr>g_watch_enabled := False\<rparr> else w_globals w);
           g2 = (if \<not> g_watch_mode g1 then g1\<lparr>g_running := False\<rparr> else g1)
       in (lp\<lparr>lp_running := False\<rparr>, w\<lparr>w_globals := g2\<rparr>)
     else if cmd = IPC_CMD_ENABLE then (lp, w\<lparr>w_globals := (w_globals w)\<lparr>g_watch_enabled := True\<rparr>\<rparr>)
     else (lp, w))"

definition ui_check :: "tick \<Rightarrow> loop_state \<times> 'd world \<Rightarrow> loop_state \<times> 'd world" where
  "ui_check k = (\<lambda>(lp, w).
     if \<not> g_watch_mode (w_globals w) \<and> ui_died k (w_globals w) then stop_all (lp, w) else (lp, w))"

definition trigger_check :: "tick \<Rightarrow> loop_state \<times> 'd world \<Rightarrow> loop_state \<times> 'd world" where
  "trigger_check k = (\<lambda>(lp, w).
     let (trigger, w') = poll_trigger k w in if trigger then stop_all (lp, w') else (lp, w'))"

definition command_check :: "tick \<Rightarrow> loop_state \<times> 'd world \<Rightarrow> loop_state \<times> 'd world" where
  "command_check k = (\<lambda>(lp, w).
     if w_ipc w \<noteq> None then let (cmd, w') = poll_ipc k w in session_command cmd (lp, w') else (lp, w))"

definition count_round ::
    "('d, 'f) session_env \<Rightarrow> tick \<Rightarrow> loop_state \<times> 'd world \<Rightarrow> loop_state \<times> 'd world" where
  "count_round env k = (\<lambda>(lp, w).
     let elapsed = k_now k - last_stats lp
     in (lp\<lparr>prev_tx_bytes := k_tx_bytes2 k, prev_rx_bytes := k_rx_bytes2 k, last_stats := k_now k\<rparr>,
         if elapsed > 0 \<and> last_stats lp > 0 then publish_stats env k elapsed lp w else w))"

definition stats_round ::
    "('d, 'f) session_env \<Rightarrow> tick \<Rightarrow> loop_state \<times> 'd world \<Rightarrow> loop_state \<times> 'd world" where
  "stats_round env k s =
     (if k_now k - last_stats (fst s) \<ge> 1
      then command_check k (trigger_check k (ui_check k (count_round env k s))) else s)"

definition session_tick ::
    "('d, 'f) session_env \<Rightarrow> ('d, unit) proto_driver \<Rightarrow> tick \<Rightarrow> loop_state \<times> 'd world \<Rightarrow> (loop_state \<times> 'd world) run" where
  "session_tick env drv k s = bindR (keepalive_round env drv k s) (\<lambda>s'. Inr (stats_round env k s'))"

text \<open>The rounds are the fuel: without an end among them the loop is still running.\<close>

fun session_loop ::
    "('d, 'f) session_env \<Rightarrow> ('d, unit) proto_driver \<Rightarrow> tick list \<Rightarrow> loop_state \<times> 'd world \<Rightarrow>
     (loop_state \<times> 'd world) run" where
  "session_loop env drv [] s = Inl No_Fuel"
| "session_loop env drv (k # ks) s =
     (let (lp, w) = observe k s
      in if g_running (w_globals w) \<and> lp_running lp
         then bindR (session_tick env drv k (lp, w)) (session_loop env drv ks)
         else Inr (lp, w))"

definition start_loop :: "rndis_state \<Rightarrow> loop_state" where
  "start_loop st = \<lparr>lp_running = True, last_keepalive = 0, last_stats = 0, prev_tx_bytes = 0,
     prev_rx_bytes = 0, lp_rndis = st\<rparr>"

section \<open>The session\<close>

definition give_up :: "'d world \<Rightarrow> int \<times> 'd world" where
  "give_up w = (if g_running (w_globals w) then 1 else 0, w)"

definition close_usb :: "usb_device \<Rightarrow> 'd world \<Rightarrow> 'd world" where
  "close_usb usb w = act (map Usb (snd (usb_close_device usb)) @ [Driver_Free]) w"

definition close_tun :: "utun \<Rightarrow> 'd world \<Rightarrow> 'd world" where
  "close_tun tun w = act (map Tun (snd (utun_close tun))) w"

definition restore_net :: "'d world \<Rightarrow> 'd world" where
  "restore_net w = (let (g, calls) = restore_network_state (w_globals w) in act calls (w\<lparr>w_globals := g\<rparr>))"

definition interrupted :: "bool \<Rightarrow> 'd world \<Rightarrow> 'd world" where
  "interrupted sig w = (if sig then w\<lparr>w_globals := signal_handler (w_globals w)\<rparr> else w)"

definition tx_pool_alloc :: "('d, 'f) session_env \<Rightarrow> session_call list" where
  "tx_pool_alloc env = map (\<lambda>i. Tx_Alloc i (s_tx_alloc env i)) [0..<64]"

definition tx_pool_free :: "('d, 'f) session_env \<Rightarrow> session_call list" where
  "tx_pool_free env = map (\<lambda>i. Tx_Free i (s_tx_alloc env i)) [0..<64]"

text \<open>From the gratuitous ARP to the end.\<close>

definition bridge_session ::
    "('d, 'f) session_env \<Rightarrow> usb_device \<Rightarrow> ('d, unit) proto_driver \<Rightarrow> rndis_state \<Rightarrow> buffer \<Rightarrow> utun \<Rightarrow>
     net_config \<Rightarrow> u32 \<Rightarrow> 'd world \<Rightarrow> (int \<times> 'd world) run" where
  "bridge_session env usb drv st device_mac tun cfg our_ip w =
     bindR (arp_send_gratuitous (s_lib env) usb (s_eth_buf env) (s_rndis_buf env) device_mac our_ip (w_dev w)) (\<lambda>d.
     bindR (session_loop env drv (s_ticks env) (start_loop st,
              act (tx_pool_alloc env @ [Threads_Start])
                (send_state env ''connected'' (Some (n_ip cfg, ifname tun)) (w\<lparr>w_dev := d\<rparr>)))) (\<lambda>(lp, w1).
     let w2 = send_state env ''disconnected'' None (act ([Threads_Join] @ tx_pool_free env) w1);
         w3 = interrupted (s_signal_after env) (close_usb usb (close_tun tun (restore_net w2)))
     in Inr (if s_disconnected env \<and> g_running (w_globals w3) then 1 else 0, w3)))"

text \<open>From \<open>utun_create\<close> to \<open>g_network_bound = 1\<close>.\<close>

definition tunnel_session where
  "tunnel_session env no_route no_dns usb drv st device_mac cfg our_ip w =
     (let (r, tun, log) = utun_create (s_socket env) (s_info env) (s_connects env) (s_flags env);
          w1 = act (map Tun log) w
      in if r < 0 then Inr (give_up (close_usb usb w1))
         else let (r', cmds) = utun_configure (s_shell env) tun (n_ip cfg) (n_gateway cfg) (n_netmask cfg);
                  w2 = act (map Shell cmds) w1
              in if r' < 0 then Inr (give_up (close_usb usb (close_tun tun w2)))
                 else let w3 = act (map Shell (network_commands (s_shell env) no_route no_dns tun cfg)) w2;
                          w4 = w3\<lparr>w_globals := (w_globals w3)\<lparr>g_network_bound := True\<rparr>\<rparr>
                      in bridge_session env usb drv st device_mac tun cfg our_ip w4)"

text \<open>From \<open>drv->init\<close> to the check of the address.\<close>

definition driver_session where
  "driver_session env no_route no_dns ip gw nm usb drv w =
     bindR (the (drv_init drv) (s_ctrl_buf env) (drv_priv drv) (w_dev w)) (\<lambda>(r, st, d).
       let w1 = w\<lparr>w_dev := d\<rparr>
       in if r < 0 then Inr (give_up (close_usb usb w1))
          else let (r', device_mac) = the (drv_get_mac drv) st
               in if r' \<noteq> 0 then Inr (give_up (close_usb usb w1))
                  else bindR (choose_addresses env usb st ip gw nm d) (\<lambda>(cfg, d').
                    let w2 = w1\<lparr>w_dev := d'\<rparr>
                    in case inet_pton (n_ip cfg) of
                         None \<Rightarrow> Inr (give_up (close_usb usb w2))
                       | Some our_ip \<Rightarrow> tunnel_session env no_route no_dns usb drv st device_mac cfg our_ip w2))"

text \<open>
  The functions of the driver table get the device when they are called; here the table is closed
  over the device that the discovery is going to find.
\<close>

definition run_session ::
    "('d, 'f) session_env \<Rightarrow> bool \<Rightarrow> bool \<Rightarrow> string option \<Rightarrow> string option \<Rightarrow> string \<Rightarrow> 'd world \<Rightarrow>
     (int \<times> 'd world) run" where
  "run_session env no_route no_dns ip gw nm w0 =
     (let w = interrupted (s_signal_before env) w0;
          (found, usb, log) = usb_find_rndis_device (s_usb_init env) (s_usb_list env)
      in case (proto_rndis_create (s_drv_mem env) (s_state_mem env) (s_lib env) usb :: ('d, unit) proto_driver option) of
           None \<Rightarrow> Inr (give_up w)
         | Some drv \<Rightarrow>
             if proto_driver_validate (Some drv) \<noteq> 0 then Inr (give_up (act [Driver_New, Driver_Free] w))
             else let w1 = act (Driver_New # map Usb log) w
                  in if found < 0 then Inr (give_up (act [Driver_Free] w1))
                     else driver_session env no_route no_dns ip gw nm usb drv w1)"

section \<open>What a session does to the outside\<close>

text \<open>Ledgers of the resources: libusb calls, driver tables, descriptors, transmit slots.\<close>

definition usb_calls :: "session_call list \<Rightarrow> usb_call list" where
  "usb_calls cs = concat (map (\<lambda>c. case c of Usb u \<Rightarrow> [u] | _ \<Rightarrow> []) cs)"

fun driver_delta :: "session_call \<Rightarrow> int" where
  "driver_delta Driver_New = 1"
| "driver_delta Driver_Free = -1"
| "driver_delta _ = 0"

fun socket_delta :: "int \<Rightarrow> session_call \<Rightarrow> int" where
  "socket_delta fd (Tun (Control_Socket n)) = (if n = fd \<and> n \<ge> 0 then 1 else 0)"
| "socket_delta fd (Tun (Close_Fd n)) = (if n = fd then -1 else 0)"
| "socket_delta fd _ = 0"

fun slot_delta :: "nat \<Rightarrow> session_call \<Rightarrow> int" where
  "slot_delta i (Tx_Alloc j ok) = (if i = j then if ok then 2 else 1 else 0)"
| "slot_delta i (Tx_Free j ok) = (if i = j then if ok then -2 else -1 else 0)"
| "slot_delta i _ = 0"

definition gives_back :: "session_call list \<Rightarrow> bool" where
  "gives_back cs \<longleftrightarrow> account {} (usb_calls cs) = Some {} \<and> net driver_delta cs = 0 \<and>
     (\<forall>fd. net (socket_delta fd) cs = 0) \<and> (\<forall>i. net (slot_delta i) cs = 0)"

text \<open>Calls of the main loop, and globals that only differ in what the loop may change.\<close>

definition loop_call :: "session_call \<Rightarrow> bool" where
  "loop_call c = (case c of Ipc _ \<Rightarrow> True | Keepalive _ \<Rightarrow> True | Polled _ \<Rightarrow> True | _ \<Rightarrow> False)"

definition same_settings :: "globals \<Rightarrow> globals \<Rightarrow> bool" where
  "same_settings g g' \<longleftrightarrow> g_no_route g' = g_no_route g \<and> g_no_dns g' = g_no_dns g \<and>
     g_network_bound g' = g_network_bound g \<and> g_ui_pid g' = g_ui_pid g \<and> g_watch_mode g' = g_watch_mode g"

definition quiet :: "'d world \<Rightarrow> 'd world \<Rightarrow> bool" where
  "quiet w w' \<longleftrightarrow> same_settings (w_globals w) (w_globals w') \<and>
     (\<exists>cs. w_calls w' = w_calls w @ cs \<and> list_all loop_call cs)"

lemma usb_calls_simps [simp]:
  "usb_calls [] = []" "usb_calls (xs @ ys) = usb_calls xs @ usb_calls ys"
  "usb_calls (c # cs) = (case c of Usb u \<Rightarrow> [u] | _ \<Rightarrow> []) @ usb_calls cs"
  by (simp_all add: usb_calls_def)

lemma loop_calls_usb: "list_all loop_call cs \<Longrightarrow> usb_calls cs = []"
  by (induction cs) (auto simp: loop_call_def split: session_call.splits)

lemma loop_call_delta:
  "loop_call c \<Longrightarrow> driver_delta c = 0" "loop_call c \<Longrightarrow> socket_delta fd c = 0" "loop_call c \<Longrightarrow> slot_delta i c = 0"
  by (cases c; simp add: loop_call_def)+

lemma loop_calls_net:
  assumes "list_all loop_call cs"
  shows "net driver_delta cs = 0" "net (socket_delta fd) cs = 0" "net (slot_delta i) cs = 0"
  using assms by (auto intro!: net_zero simp: list_all_iff loop_call_delta)

lemma same_settings_refl [simp]: "same_settings g g"
  by (simp add: same_settings_def)

lemma quiet_refl [simp]: "quiet w w"
  by (auto simp: quiet_def intro: exI [of _ "[]"])

lemma quiet_trans: "quiet w w' \<Longrightarrow> quiet w' w'' \<Longrightarrow> quiet w w''"
proof -
  assume q: "quiet w w'" "quiet w' w''"
  then obtain cs cs' where "w_calls w'' = w_calls w @ cs @ cs'" "list_all loop_call (cs @ cs')"
    by (auto simp: quiet_def)
  moreover have "same_settings (w_globals w) (w_globals w'')" using q by (simp add: quiet_def same_settings_def)
  ultimately show ?thesis unfolding quiet_def by blast
qed

lemma act_simps [simp]:
  "w_calls (act cs w) = w_calls w @ cs" "w_globals (act cs w) = w_globals w" "w_ipc (act cs w) = w_ipc w"
  "w_files (act cs w) = w_files w" "w_dev (act cs w) = w_dev w"
  by (simp_all add: act_def)

lemma quiet_act: "list_all loop_call cs \<Longrightarrow> quiet w (act cs w)"
  by (auto simp: quiet_def)

lemma quiet_Ipc: "list_all loop_call (map Ipc cs)"
  by (auto simp: list_all_iff loop_call_def)

lemma quiet_step:
  "same_settings (w_globals w) (w_globals w') \<Longrightarrow> w_calls w' = w_calls w @ cs \<Longrightarrow> list_all loop_call cs \<Longrightarrow> quiet w w'"
  by (auto simp: quiet_def)

section \<open>The loop is quiet\<close>

lemma observe_quiet: "quiet w (snd (observe k (lp, w)))"
  by (rule quiet_step [of _ _ "[]"]) (auto simp: observe_def signal_handler_def same_settings_def)

lemma keepalive_quiet: "keepalive_round env drv k (lp, w) = Inr (lp', w') \<Longrightarrow> quiet w w'"
  by (rule quiet_step [of _ _ "drop (length (w_calls w)) (w_calls w')"])
    (auto simp: keepalive_round_def bindR_eq_Inr loop_call_def split: if_splits option.splits)

lemma publish_quiet: "quiet w (publish_stats env k elapsed lp w)"
  unfolding publish_stats_def Let_def by (rule quiet_step [of _ _ "map Ipc _"]) (auto simp: quiet_Ipc)

lemma count_quiet: "quiet (snd s) (snd (count_round env k s))"
  by (auto simp: count_round_def publish_quiet Let_def split: prod.splits)

lemma stop_all_quiet: "quiet (snd s) (snd (stop_all s))"
  by (rule quiet_step [of _ _ "[]"]) (auto simp: stop_all_def same_settings_def split: prod.splits)

lemma ui_quiet: "quiet (snd s) (snd (ui_check k s))"
  using stop_all_quiet [of s] by (auto simp: ui_check_def split: prod.splits)

lemma poll_trigger_quiet: "quiet w (snd (poll_trigger k w))"
  by (rule quiet_step [of _ _ "[]"]) (auto simp: poll_trigger_def Let_def split: prod.splits)

lemma trigger_quiet: "quiet (snd s) (snd (trigger_check k s))"
  using quiet_trans [OF poll_trigger_quiet stop_all_quiet [of "(lp, w)" for lp w, unfolded snd_conv]] poll_trigger_quiet
  by (auto simp: trigger_check_def split_beta Let_def)

lemma poll_ipc_quiet: "quiet w (snd (poll_ipc k w))"
proof -
  obtain srv cmd calls where "ipc_server_poll (k_accepted k) (k_reads k) (w_ipc w) = (srv, cmd, calls)"
    by (metis prod_cases3)
  then show ?thesis
    using quiet_Ipc [of calls] by (intro quiet_step [of _ _ "map Ipc calls @ [Polled cmd]"]) (auto simp: poll_ipc_def loop_call_def)
qed

lemma session_command_quiet: "quiet (snd s) (snd (session_command cmd s))"
  by (rule quiet_step [of _ _ "[]"]) (auto simp: session_command_def same_settings_def Let_def split: prod.splits)

lemma command_quiet: "quiet (snd s) (snd (command_check k s))"
  using quiet_trans [OF poll_ipc_quiet session_command_quiet [of "(lp, w)" for lp w, unfolded snd_conv]]
  by (auto simp: command_check_def split_beta Let_def)

lemma stats_quiet: "quiet (snd s) (snd (stats_round env k s))"
proof -
  have "quiet (snd s) (snd (command_check k (trigger_check k (ui_check k (count_round env k s)))))"
    by (rule quiet_trans [OF count_quiet quiet_trans [OF ui_quiet quiet_trans [OF trigger_quiet command_quiet]]])
  then show ?thesis by (simp add: stats_round_def)
qed

lemma loop_quiet: "session_loop env drv ks (lp, w) = Inr (lp', w') \<Longrightarrow> quiet w w'"
proof (induction ks arbitrary: lp w)
  case (Cons k ks)
  obtain lp1 w1 where o: "observe k (lp, w) = (lp1, w1)" by fastforce
  have q1: "quiet w w1" using observe_quiet [of w k lp] o by simp
  show ?case
  proof (cases "g_running (w_globals w1) \<and> lp_running lp1")
    case True
    with Cons.prems o obtain lp2 w2 where r: "keepalive_round env drv k (lp1, w1) = Inr (lp2, w2)"
      "session_loop env drv ks (stats_round env k (lp2, w2)) = Inr (lp', w')"
      by (auto simp: session_tick_def bindR_eq_Inr)
    obtain lp3 w3 where s: "stats_round env k (lp2, w2) = (lp3, w3)" by fastforce
    have "quiet w1 w2" "quiet w2 w3" using keepalive_quiet [OF r(1)] stats_quiet [of "(lp2, w2)" env k] s by auto
    moreover have "quiet w3 w'" using Cons.IH r(2) s by simp
    ultimately show ?thesis using q1 by (blast intro: quiet_trans)
  qed (use Cons.prems o q1 in auto)
qed simp

section \<open>Stages of a session\<close>

lemma connect_loop_calls: "connect_loop connects us = (r, cs) \<Longrightarrow> net (socket_delta n) (map Tun cs) = 0"
  by (induction us arbitrary: r cs) (auto split: if_splits prod.splits)

lemma utun_create_calls:
  assumes "utun_create fd info_ok connects flags = (r, tun, log)"
  shows "r = 0 \<or> r = -1" and "r = 0 \<Longrightarrow> tun_fd tun = fd \<and> fd \<ge> 0"
    and "net (socket_delta n) (map Tun log) = one_if (r = 0 \<and> n = fd)"
proof -
  obtain found cs where l: "connect_loop connects [0..<256] = (found, cs)" by fastforce
  show "r = 0 \<or> r = -1" "r = 0 \<Longrightarrow> tun_fd tun = fd \<and> fd \<ge> 0"
    using assms l by (auto simp: utun_create_def Let_def split: if_splits option.splits)
  show "net (socket_delta n) (map Tun log) = one_if (r = 0 \<and> n = fd)"
    using assms l connect_loop_calls [OF l, of n]
    by (auto simp: utun_create_def Let_def one_if_def split: if_splits option.splits)
qed

lemma only_shell:
  "usb_calls (map Shell cs) = []" "net driver_delta (map Shell cs) = 0"
  "net (socket_delta fd) (map Shell cs) = 0" "net (slot_delta i) (map Shell cs) = 0"
  by (induction cs) simp_all

lemma only_tun:
  "usb_calls (map Tun cs) = []" "net driver_delta (map Tun cs) = 0" "net (slot_delta i) (map Tun cs) = 0"
  by (induction cs) simp_all

lemma only_usb:
  "usb_calls (map Usb cs) = cs" "net driver_delta (map Usb cs) = 0" "net (slot_delta i) (map Usb cs) = 0"
  "net (socket_delta fd) (map Usb cs) = 0"
  by (induction cs) simp_all

lemma only_restore:
  assumes "restore_network_state g = (g', cs)"
  shows "usb_calls cs = []" "net driver_delta cs = 0" "net (socket_delta fd) cs = 0" "net (slot_delta i) cs = 0"
    "\<not> g_network_bound g'" "g_running g' = g_running g" "g_watch_enabled g' = g_watch_enabled g"
    "g_watch_mode g' = g_watch_mode g"
  using assms by (auto simp: restore_network_state_def only_shell split: if_splits)

lemma tx_pool_calls:
  "usb_calls (tx_pool_alloc env) = []" "net driver_delta (tx_pool_alloc env) = 0"
  "net (socket_delta fd) (tx_pool_alloc env) = 0"
  "usb_calls (tx_pool_free env) = []" "net driver_delta (tx_pool_free env) = 0"
  "net (socket_delta fd) (tx_pool_free env) = 0"
  "net (slot_delta i) (tx_pool_alloc env) + net (slot_delta i) (tx_pool_free env) = 0"
proof -
  have pool: "usb_calls (map (\<lambda>i. Tx_Alloc i (ok i)) is) = []" "usb_calls (map (\<lambda>i. Tx_Free i (ok i)) is) = []"
    "net (slot_delta i) (map (\<lambda>i. Tx_Alloc i (ok i)) is) + net (slot_delta i) (map (\<lambda>i. Tx_Free i (ok i)) is) = 0"
    for ok i "is" by (induction "is") auto
  show "net (slot_delta i) (tx_pool_alloc env) + net (slot_delta i) (tx_pool_free env) = 0"
    unfolding tx_pool_alloc_def tx_pool_free_def by (rule pool)
qed (auto simp: tx_pool_alloc_def tx_pool_free_def usb_calls_def intro!: net_zero)

text \<open>
  The calls of a bridge: it starts the threads, runs the loop, joins them, restores the network and
  closes everything; what it restores is decided by the settings.
\<close>

lemma bridge_session_calls:
  assumes "bridge_session env usb drv st device_mac tun cfg our_ip w = Inr (r, w')"
  obtains up down closing g g' undo where "list_all loop_call up" "list_all loop_call down" "list_all loop_call closing"
    "same_settings (w_globals w) g" "restore_network_state g = (g', undo)" "g_network_bound (w_globals w') = g_network_bound g'"
    "w_calls w' = w_calls w @ up @ tx_pool_alloc env @ [Threads_Start] @ down @ [Threads_Join] @ tx_pool_free env @
       closing @ undo @ map Tun (snd (utun_close tun)) @ map Usb (snd (usb_close_device usb)) @ [Driver_Free]"
    "r = (if s_disconnected env \<and> g_running (w_globals w') then 1 else 0)"
proof -
  from assms obtain d lp w1 where
    loop: "session_loop env drv (s_ticks env) (start_loop st, act (tx_pool_alloc env @ [Threads_Start])
      (send_state env ''connected'' (Some (n_ip cfg, ifname tun)) (w\<lparr>w_dev := d\<rparr>))) = Inr (lp, w1)"
    and res: "w' = interrupted (s_signal_after env) (close_usb usb (close_tun tun (restore_net
      (send_state env ''disconnected'' None (act ([Threads_Join] @ tx_pool_free env) w1)))))"
      "r = (if s_disconnected env \<and> g_running (w_globals w') then 1 else 0)"
    by (auto simp: bridge_session_def bindR_eq_Inr Let_def)
  obtain g' undo where rst: "restore_network_state (w_globals w1) = (g', undo)" by fastforce
  from loop_quiet [OF loop] obtain down where
    down: "list_all loop_call down" "same_settings (w_globals w) (w_globals w1)"
      "w_calls w1 = w_calls w @ map Ipc (ipc_server_send_state (s_written env) (w_ipc w) ''connected''
        (Some (n_ip cfg, ifname tun))) @ tx_pool_alloc env @ [Threads_Start] @ down"
    by (auto simp: quiet_def send_state_def)
  show ?thesis
  proof (rule that [OF quiet_Ipc down(1) quiet_Ipc down(2) rst])
    show "r = (if s_disconnected env \<and> g_running (w_globals w') then 1 else 0)" by (rule res(2))
    show "g_network_bound (w_globals w') = g_network_bound g'"
      using rst by (simp add: res(1) interrupted_def close_usb_def close_tun_def restore_net_def send_state_def
          signal_handler_def)
  qed (use rst down(3) in \<open>simp add: res(1) interrupted_def close_usb_def close_tun_def restore_net_def send_state_def\<close>)
qed

text \<open>A session up to some point holds a device, the driver, and perhaps a descriptor.\<close>

definition holds :: "resource set \<Rightarrow> int \<Rightarrow> int option \<Rightarrow> session_call list \<Rightarrow> bool" where
  "holds R drv fd cs \<longleftrightarrow> account {} (usb_calls cs) = Some R \<and> net driver_delta cs = drv \<and>
     (\<forall>n. net (socket_delta n) cs = one_if (fd = Some n)) \<and> (\<forall>i. net (slot_delta i) cs = 0)"

lemma gives_back_holds: "gives_back cs \<longleftrightarrow> holds {} 0 None cs"
  by (simp add: gives_back_def holds_def one_if_def)

definition neutral :: "session_call list \<Rightarrow> bool" where
  "neutral cs \<longleftrightarrow> usb_calls cs = [] \<and> net driver_delta cs = 0 \<and> (\<forall>n. net (socket_delta n) cs = 0) \<and>
     (\<forall>i. net (slot_delta i) cs = 0)"

lemma neutral_append [intro]: "neutral cs \<Longrightarrow> neutral cs' \<Longrightarrow> neutral (cs @ cs')"
  by (simp add: neutral_def)

lemma neutral_loop: "list_all loop_call cs \<Longrightarrow> neutral cs"
  by (simp add: neutral_def loop_calls_usb loop_calls_net)

lemma neutral_shell: "neutral (map Shell cs)"
  by (simp add: neutral_def only_shell)

lemma neutral_restore: "restore_network_state g = (g', undo) \<Longrightarrow> neutral undo"
  by (simp add: neutral_def only_restore)

definition reached :: "session_call list \<Rightarrow> resource set \<Rightarrow> int \<Rightarrow> int option \<Rightarrow> 'd world \<Rightarrow> bool" where
  "reached c0 R drv fd w \<longleftrightarrow> (\<exists>cs. w_calls w = c0 @ cs \<and> holds R drv fd cs)"

lemma reached_act: "reached c0 R drv fd w \<Longrightarrow> neutral cs \<Longrightarrow> reached c0 R drv fd (act cs w)"
  by (auto simp: reached_def holds_def neutral_def)

lemma reached_update [simp]:
  "reached c0 R drv fd (w\<lparr>w_globals := g\<rparr>) = reached c0 R drv fd w" "reached c0 R drv fd (w\<lparr>w_dev := d\<rparr>) = reached c0 R drv fd w"
  by (simp_all add: reached_def)

lemma reached_close_tun:
  assumes "reached c0 R drv (Some (tun_fd tun)) w" "tun_fd tun \<ge> 0"
  shows "reached c0 R drv None (close_tun tun w)"
  using assms by (auto simp: reached_def holds_def close_tun_def utun_close_def one_if_def)

lemma reached_close_usb:
  assumes "reached c0 R 1 None w" "account R (snd (usb_close_device usb)) = Some {}"
  shows "reached c0 {} 0 None (close_usb usb w)"
proof -
  obtain cs where "w_calls w = c0 @ cs" "holds R 1 None cs" using assms(1) by (auto simp: reached_def)
  moreover from this(2) assms(2) have "holds {} 0 None (cs @ map Usb (snd (usb_close_device usb)) @ [Driver_Free])"
    by (simp add: holds_def only_usb account_append)
  ultimately show ?thesis unfolding reached_def close_usb_def act_simps by (metis append.assoc)
qed

text \<open>The end of a session: everything is given back and the result fits the flags.\<close>

definition finished :: "session_call list \<Rightarrow> int \<times> 'd world \<Rightarrow> bool" where
  "finished c0 = (\<lambda>(r, w). reached c0 {} 0 None w \<and> \<not> g_network_bound (w_globals w) \<and> (r = 0 \<or> r = 1) \<and>
     (r = 1 \<longrightarrow> g_running (w_globals w)))"

lemma give_up_finished:
  "reached c0 {} 0 None w \<Longrightarrow> \<not> g_network_bound (w_globals w) \<Longrightarrow> finished c0 (give_up w)"
  by (simp add: finished_def give_up_def)

lemma close_globals [simp]:
  "w_globals (close_usb usb w) = w_globals w" "w_globals (close_tun tun w) = w_globals w"
  by (simp_all add: close_usb_def close_tun_def)

lemma bridge_finished:
  assumes "bridge_session env usb drv st device_mac tun cfg our_ip w = Inr x"
    and "reached c0 R 1 (Some (tun_fd tun)) w" "tun_fd tun \<ge> 0" "account R (snd (usb_close_device usb)) = Some {}"
  shows "finished c0 x"
proof -
  obtain r w' where x: "x = (r, w')" by fastforce
  obtain up down closing g g' undo where c: "list_all loop_call up" "list_all loop_call down" "list_all loop_call closing"
    "restore_network_state g = (g', undo)" "g_network_bound (w_globals w') = g_network_bound g'"
    "w_calls w' = w_calls w @ up @ tx_pool_alloc env @ [Threads_Start] @ down @ [Threads_Join] @ tx_pool_free env @
       closing @ undo @ map Tun (snd (utun_close tun)) @ map Usb (snd (usb_close_device usb)) @ [Driver_Free]"
    "r = (if s_disconnected env \<and> g_running (w_globals w') then 1 else 0)"
    using bridge_session_calls [OF assms(1) [unfolded x]] by metis
  let ?mid = "up @ tx_pool_alloc env @ [Threads_Start] @ down @ [Threads_Join] @ tx_pool_free env @ closing @ undo"
  have "neutral ?mid"
    using neutral_loop [OF c(1)] neutral_loop [OF c(2)] neutral_loop [OF c(3)] neutral_restore [OF c(4)] tx_pool_calls [where env = env]
    by (simp add: neutral_def algebra_simps)
  then have "reached c0 {} 0 None (close_usb usb (close_tun tun (act ?mid w)))"
    by (intro reached_close_usb [OF reached_close_tun [OF reached_act [OF assms(2)] assms(3)] assms(4)])
  then have "reached c0 {} 0 None w'" by (simp add: reached_def c(6) close_usb_def close_tun_def)
  then show ?thesis using c(5,7) only_restore(5) [OF c(4)] by (simp add: x finished_def)
qed

lemma tunnel_finished:
  assumes "tunnel_session env no_route no_dns usb drv st device_mac cfg our_ip w = Inr x"
    and "reached c0 R 1 None w" "account R (snd (usb_close_device usb)) = Some {}" "\<not> g_network_bound (w_globals w)"
  shows "finished c0 x"
proof -
  obtain r tun log where c: "utun_create (s_socket env) (s_info env) (s_connects env) (s_flags env) = (r, tun, log)"
    by (metis prod_cases3)
  obtain r' cmds where f: "utun_configure (s_shell env) tun (n_ip cfg) (n_gateway cfg) (n_netmask cfg) = (r', cmds)"
    by fastforce
  note u = utun_create_calls [OF c]
  have w1: "reached c0 R 1 (if r = 0 then Some (tun_fd tun) else None) (act (map Tun log) w)"
    using assms(2) u only_tun [where cs = log] by (auto simp: reached_def holds_def one_if_def)
  have close: "reached c0 R 1 None w' \<Longrightarrow> \<not> g_network_bound (w_globals w') \<Longrightarrow> finished c0 (give_up (close_usb usb w'))" for w' :: "'a world"
    by (intro give_up_finished reached_close_usb [OF _ assms(3)]) simp_all
  show ?thesis
  proof (cases "r = 0")
    case False
    with assms(1,4) c w1 u(1) close show ?thesis by (auto simp: tunnel_session_def)
  next
    case True
    let ?w2 = "act (map Shell cmds) (act (map Tun log) w)"
    have w2: "reached c0 R 1 (Some (tun_fd tun)) (act (map Shell cs) ?w2)" "reached c0 R 1 (Some (tun_fd tun)) ?w2" for cs
      using w1 True by (auto intro!: reached_act neutral_shell)
    show ?thesis
    proof (cases "r' < 0")
      case True
      then show ?thesis using assms(1,4) c f u \<open>r = 0\<close> close [OF reached_close_tun [OF w2(2)]]
        by (simp add: tunnel_session_def)
    next
      case False
      let ?w4 = "(act (map Shell (network_commands (s_shell env) no_route no_dns tun cfg)) ?w2)
        \<lparr>w_globals := (w_globals w)\<lparr>g_network_bound := True\<rparr>\<rparr>"
      have "bridge_session env usb drv st device_mac tun cfg our_ip ?w4 = Inr x"
        using assms(1) c f False \<open>r = 0\<close> by (simp add: tunnel_session_def Let_def)
      moreover have "reached c0 R 1 (Some (tun_fd tun)) ?w4" unfolding reached_update by (rule w2(1))
      moreover have "tun_fd tun \<ge> 0" using u \<open>r = 0\<close> by simp
      ultimately show ?thesis by (rule bridge_finished [OF _ _ _ assms(3)])
    qed
  qed
qed

lemma driver_finished:
  assumes "driver_session env no_route no_dns ip gw nm usb drv w = Inr x"
    and "reached c0 R 1 None w" "account R (snd (usb_close_device usb)) = Some {}" "\<not> g_network_bound (w_globals w)"
  shows "finished c0 x"
proof -
  have close: "finished c0 (give_up (close_usb usb (w\<lparr>w_dev := d\<rparr>)))" for d
    using assms(2,4) by (intro give_up_finished reached_close_usb [OF _ assms(3)]) simp_all
  have tunnel: "finished c0 y" if "tunnel_session env no_route no_dns usb drv st mac cfg a (w\<lparr>w_dev := d\<rparr>) = Inr y"
    for st mac cfg a d y using assms(2,4) by (intro tunnel_finished [OF that _ assms(3)]) simp_all
  from assms(1) show ?thesis
    by (auto simp: driver_session_def bindR_eq_Inr Let_def close split: if_splits prod.splits option.splits
        dest!: tunnel)
qed

lemma session_finished:
  assumes "run_session env no_route no_dns ip gw nm w = Inr (r, w')" "\<not> g_network_bound (w_globals w)"
  shows "finished (w_calls w) (r, w')"
proof -
  obtain found usb log where u: "usb_find_rndis_device (s_usb_init env) (s_usb_list env) = (found, usb, log)"
    by (metis prod_cases3)
  let ?w = "interrupted (s_signal_before env) w"
  have w: "w_calls ?w = w_calls w" "\<not> g_network_bound (w_globals ?w)"
    using assms(2) by (simp_all add: interrupted_def signal_handler_def)
  have start: "reached (w_calls w) {} 0 None ?w" using w by (simp add: reached_def holds_def one_if_def)
  have driver: "finished (w_calls w) (give_up (act [Driver_New, Driver_Free] ?w))"
    using w by (intro give_up_finished) (auto simp: reached_def holds_def one_if_def)
  show "finished (w_calls w) (r, w')"
  proof (cases "s_drv_mem env \<and> s_state_mem env")
    case False
    then have "(proto_rndis_create (s_drv_mem env) (s_state_mem env) (s_lib env) usb :: ('a, unit) proto_driver option) = None"
      by (auto simp: proto_rndis_create_def)
    then show ?thesis using assms(1) u give_up_finished [OF start w(2)] by (simp add: run_session_def Let_def)
  next
    case True
    then obtain drv :: "('a, unit) proto_driver" where
      d: "proto_rndis_create (s_drv_mem env) (s_state_mem env) (s_lib env) usb = Some drv"
      by (simp add: proto_rndis_create_def)
    have acc: "found = -1 \<and> account {} log = Some {} \<or> found = 0 \<and> (\<exists>R. account {} log = Some R \<and>
        account R (snd (usb_close_device usb)) = Some {})"
      using usb_find_account [of "s_usb_init env" "s_usb_list env"] u by (auto simp: account_append)
    show ?thesis
    proof (cases "found = -1")
      case True
      then have "reached (w_calls w) {} 0 None (act [Driver_Free] (act (Driver_New # map Usb log) ?w))"
        using acc w(1) by (auto simp: reached_def holds_def only_usb one_if_def)
      then have "finished (w_calls w) (give_up (act [Driver_Free] (act (Driver_New # map Usb log) ?w)))"
        using w(2) by (intro give_up_finished) simp_all
      then show ?thesis using assms(1) u d True driver
        by (auto simp: run_session_def Let_def split: if_splits)
    next
      case False
      with acc obtain R where R: "account {} log = Some R" "account R (snd (usb_close_device usb)) = Some {}" "found = 0"
        by auto
      then have "reached (w_calls w) R 1 None (act (Driver_New # map Usb log) ?w)"
        using w(1) by (auto simp: reached_def holds_def only_usb one_if_def)
      then show ?thesis using assms(1) u d R w(2) driver
        by (auto simp: run_session_def Let_def split: if_splits elim!: driver_finished)
    qed
  qed
qed

text \<open>Only a device that was lost makes a session with a bridge ask for another one.\<close>

lemma bridge_error_ends_daemon:
  assumes "bridge_session env usb drv st device_mac tun cfg our_ip w = Inr (r, w')" "\<not> s_disconnected env"
  shows "r = 0"
  using assms bridge_session_calls [OF assms(1)] by metis

section \<open>Properties\<close>

text \<open>
  C1: A session gives everything back, whichever of its steps fails: the device context, the handle,
  its interfaces, the driver table, the utun descriptor and the 64 transmit slots are acquired and
  given back in balance; the host's network is no longer bound; and the result is 0 or 1, 1 only
  while the daemon is to go on.
\<close>

theorem session_gives_everything_back:
  assumes "run_session env no_route no_dns ip gw nm w = Inr (r, w')" "\<not> g_network_bound (w_globals w)"
  shows "(\<exists>cs. w_calls w' = w_calls w @ cs \<and> gives_back cs) \<and> \<not> g_network_bound (w_globals w') \<and>
    (r = 0 \<or> r = 1) \<and> (r = 1 \<longrightarrow> g_running (w_globals w'))"
  using session_finished [OF assms] by (simp add: finished_def reached_def gives_back_holds)

text \<open>A host on which nothing answers, for the witnesses.\<close>

definition demo_tick :: "int \<Rightarrow> tick" where
  "demo_tick t = \<lparr>k_signal = False, k_bridge_down = False, k_now = t, k_tx_bytes = 0, k_rx_bytes = 0,
     k_tx_bytes2 = 0, k_rx_bytes2 = 0, k_tx_pkts = 0, k_rx_pkts = 0, k_stats_open = True, k_ui_alive = True,
     k_stop_file = False, k_accepted = -1, k_reads = (\<lambda>_. Again)\<rparr>"

definition demo_env :: "(buffer list, int) session_env" where
  "demo_env = \<lparr>s_drv_mem = True, s_state_mem = True, s_lib = scripted_lib, s_usb_init = True,
     s_usb_list = Some [], s_ctrl_buf = replicate 32768 0, s_rndis_buf = replicate 32768 0,
     s_eth_buf = replicate 2048 0, s_fuel = 1, s_signal_before = False, s_signal_after = False,
     s_socket = 5, s_info = True, s_connects = (\<lambda>_. True), s_flags = 0, s_shell = (\<lambda>_. 0),
     s_tx_alloc = (\<lambda>_. True), s_ticks = [demo_tick 100, (demo_tick 101)\<lparr>k_bridge_down := True\<rparr>],
     s_disconnected = False, s_rate = (\<lambda>bytes secs. uint bytes div secs), s_fmt2 = (\<lambda>_. ''0.00''),
     s_written = (\<lambda>_ json. int (length json))\<rparr>"

definition demo_world :: "bool \<Rightarrow> buffer list world" where
  "demo_world watch = \<lparr>w_globals = \<lparr>g_running = True, g_no_route = False, g_no_dns = False, g_network_bound = False,
       g_ui_pid = 0, g_watch_mode = watch, g_watch_enabled = True\<rparr>,
     w_ipc = None, w_dev = [], w_files = Map.empty, w_calls = []\<rparr>"

lemma demo_run:
  "\<exists>w'. run_session demo_env False False (Some ''10.0.0.2'') None ''255.255.255.0'' (demo_world watch) = Inr (1, w')"
  by (simp add: run_session_def demo_env_def demo_world_def usb_find_rndis_device_def proto_rndis_create_def
      proto_driver_validate_def interrupted_def give_up_def Let_def)

lemma session_gives_everything_back_witness:
  "\<exists>w'. run_session demo_env False False (Some ''10.0.0.2'') None ''255.255.255.0'' (demo_world False) = Inr (1, w') \<and>
     gives_back (w_calls w')"
proof -
  obtain w' where r: "run_session demo_env False False (Some ''10.0.0.2'') None ''255.255.255.0'' (demo_world False) = Inr (1, w')"
    using demo_run by blast
  have "\<not> g_network_bound (w_globals (demo_world False))" "w_calls (demo_world False) = []" by (simp_all add: demo_world_def)
  with session_gives_everything_back [OF r] r show ?thesis by auto
qed

end
