(* ===== verification/Dhcp_Safe.thy ===== *)
theory Dhcp_Safe
  imports Dhcp_Client
begin

text \<open>
  The whole of \<open>dhcp_discover\<close> against any device: the message loops of \<open>Dhcp_Client\<close> over every transfer
  that the two waits receive, and the two packets that are sent in between.
\<close>

section \<open>Transfers that fit\<close>

text \<open>
  What the code relies on in a received transfer: no length field makes the offset of the loop wrap
  around, and every message satisfies \<open>answer_fits\<close>.
\<close>

definition transfer_ok :: "buffer \<Rightarrow> nat \<Rightarrow> bool" where
  "transfer_ok buf n \<longleftrightarrow> no_wrap buf n \<and>
     list_all (\<lambda>k. answer_fits (drop k buf) (u32_at buf (k + 4))) [0..<n - 7]"

lemma transfer_okD:
  "transfer_ok buf n \<Longrightarrow> no_wrap buf n"
  "transfer_ok buf n \<Longrightarrow> k + 8 \<le> n \<Longrightarrow> answer_fits (drop k buf) (u32_at buf (k + 4))"
  by (auto simp: transfer_ok_def list_all_iff)

text \<open>A device whose transfers fit, whatever the receive buffer held before.\<close>

definition fitting_device :: "'d libusb \<Rightarrow> usb_device \<Rightarrow> bool" where
  "fitting_device lib usb \<longleftrightarrow> (\<forall>d buf. length buf = RNDIS_BUF_SIZE \<longrightarrow>
     (case lib_bulk_in lib (ep_in usb) RNDIS_BUF_SIZE 200 d of ((err, bs), d') \<Rightarrow>
        let bs' = take RNDIS_BUF_SIZE bs
        in err = None \<longrightarrow> transfer_ok (bs' @ drop (length bs') buf) (length bs')))"

lemma recv_fits:
  assumes "fitting_device lib usb" "length buf = RNDIS_BUF_SIZE"
  shows "runs_to (usb_recv_bulk lib usb buf RNDIS_BUF_SIZE 200 d) (\<lambda>(ret, buf', d').
    length buf' = RNDIS_BUF_SIZE \<and>
    (0 < ret \<longrightarrow> (\<exists>n. ret = int n \<and> n \<le> RNDIS_BUF_SIZE \<and> transfer_ok buf' n)))"
proof -
  obtain err bs d' where l: "lib_bulk_in lib (ep_in usb) RNDIS_BUF_SIZE 200 d = ((err, bs), d')"
    by (metis prod.collapse)
  let ?bs = "take RNDIS_BUF_SIZE bs"
  have "err = None \<Longrightarrow> transfer_ok (?bs @ drop (length ?bs) buf) (length ?bs)"
    using assms l unfolding fitting_device_def by (metis (mono_tags, lifting) case_prod_conv)
  moreover have "length ?bs \<le> RNDIS_BUF_SIZE" by simp
  ultimately show ?thesis
    using l assms(2) by (auto simp: usb_recv_bulk_def split: option.splits libusb_error.splits)
qed

section \<open>Waiting for an answer\<close>

text \<open>A loop that is left with a result was left by its body.\<close>

lemma walk_stop:
  "rndis_walk body fuel buf len off s = Inr (True, s') \<Longrightarrow> \<exists>pkt m s0. body pkt m s0 = Inr (True, s')"
proof (induction fuel arbitrary: off s)
  case (Suc fuel)
  then show ?case
    by (auto simp: bindR_eq_Inr Let_def split: if_splits prod.splits)
qed simp

lemma wait_stop:
  "wait_answer body fuel k lib usb buf s d = Inr (True, buf', s', d') \<Longrightarrow> \<exists>pkt m s0. body pkt m s0 = Inr (True, s')"
proof (induction k arbitrary: buf s d)
  case (Suc k)
  then show ?case
    by (auto simp: bindR_eq_Inr split: if_splits prod.splits dest: walk_stop)
qed simp

lemma ack_stop: "ack_message xid pkt m s = Inr (True, s') \<Longrightarrow> dotted_lease (snd s')"
  by (auto simp: ack_message_def bindR_eq_Inr Let_def lease_of_dotted split: option.splits if_splits prod.splits)

context message_handler
begin

lemma wait_runs:
  assumes "fitting_device lib usb" "RNDIS_BUF_SIZE < fuel"
    and "\<And>buf n k. transfer_ok buf n \<Longrightarrow> k + 8 \<le> n \<Longrightarrow> good (drop k buf) (u32_at buf (k + 4))"
    and "length buf = RNDIS_BUF_SIZE" "inv s"
  shows "runs_to (wait_answer body fuel tries lib usb buf s d) (\<lambda>(found, buf', s', d').
    length buf' = RNDIS_BUF_SIZE \<and> inv s')"
  using assms(4,5)
proof (induction tries arbitrary: buf s d)
  case (Suc tries)
  from recv_fits [OF assms(1) Suc.prems(1)] obtain ret buf' d' where
    r: "usb_recv_bulk lib usb buf RNDIS_BUF_SIZE 200 d = Inr (ret, buf', d')" "length buf' = RNDIS_BUF_SIZE"
      "0 < ret \<longrightarrow> (\<exists>n. ret = int n \<and> n \<le> RNDIS_BUF_SIZE \<and> transfer_ok buf' n)"
    by (fastforce elim!: runs_toE)
  show ?case
  proof (cases "0 < ret")
    case False
    then show ?thesis using Suc.IH [OF r(2) Suc.prems(2)] r(1) by simp
  next
    case True
    then obtain n where n: "ret = int n" "n \<le> RNDIS_BUF_SIZE" "transfer_ok buf' n" using r(3) by auto
    have "runs_to (rndis_walk body fuel buf' (word_of_nat n) 0 s) (\<lambda>(stop, s'). inv s')"
      using n r(2) assms(2) Suc.prems(2) transfer_okD(1) [OF n(3)] assms(3) [OF n(3)]
      by (intro walk_runs) auto
    then obtain stop s' where w: "rndis_walk body fuel buf' (word_of_nat n) 0 s = Inr (stop, s')" "inv s'"
      by (auto elim!: runs_toE)
    then show ?thesis using Suc.IH [OF r(2) w(2)] r True n(1) by simp
  qed
qed simp

end

section \<open>Sending\<close>

lemma send_frame_runs:
  assumes "length rb = RNDIS_BUF_SIZE" "n \<le> length eth" "n \<le> ETH_BUF_SIZE"
  shows "runs_to (send_frame lib usb rb eth n d) (\<lambda>(ret, rb', d'). length rb' = RNDIS_BUF_SIZE)"
proof -
  have b: "rndis_build_data_packet rb RNDIS_BUF_SIZE eth n =
      Inr (int (44 + n), enc_data_packet (data_packet_header (44 + n) n) @ take n eth @ drop (44 + n) rb)"
    using assms by (simp add: build_data_packet_eq)
  let ?rb = "enc_data_packet (data_packet_header (44 + n) n) @ take n eth @ drop (44 + n) rb"
  have l: "length ?rb = RNDIS_BUF_SIZE" using assms by simp
  then have "runs_to (usb_send_bulk lib usb ?rb (44 + n) d) (\<lambda>_. True)"
    using assms by (intro runs_to_mono [OF usb_send_bulk_runs]) auto
  then show ?thesis using b l by (auto simp: send_frame_def nat_add_distrib elim!: runs_toE)
qed

section \<open>The dialogue\<close>

lemma request_phase_runs:
  assumes "length rb = RNDIS_BUF_SIZE" "length eb = ETH_BUF_SIZE" "length mac = 6"
    and "fitting_device lib usb" "RNDIS_BUF_SIZE < fuel"
  shows "runs_to (dhcp_request_phase fuel lib usb rb eb mac s lease d) (\<lambda>(ret, lease', d').
    ret = 0 \<and> dotted_lease lease' \<or> ret = -1 \<and> (lease' = lease \<or> dotted_lease lease'))"
proof -
  obtain eth1 where e: "dhcp_build_request eb ETH_BUF_SIZE mac dhcp_xid (offered_addr s) (server_addr s) = Inr (303, eth1)"
    "length eth1 = ETH_BUF_SIZE" using request_frame [OF assms(3,2)] .
  obtain ret rb1 d1 where f: "send_frame lib usb rb eth1 303 d = Inr (ret, rb1, d1)" "length rb1 = RNDIS_BUF_SIZE"
    using send_frame_runs [OF assms(1), of 303 eth1 lib usb d] e(2) by (auto elim!: runs_toE)
  have "runs_to (wait_answer (ack_message dhcp_xid) fuel 50 lib usb rb1 (offer_opts s, lease) d1)
      (\<lambda>(found, buf', s', d'). length buf' = RNDIS_BUF_SIZE \<and>
        (case s' of (_, lease') \<Rightarrow> lease' = lease \<or> dotted_lease lease'))"
    by (rule ack.wait_runs [OF assms(4,5)]) (use f(2) in \<open>auto intro: transfer_okD(2)\<close>)
  then obtain acked rb2 o' lease' d2 where w:
    "wait_answer (ack_message dhcp_xid) fuel 50 lib usb rb1 (offer_opts s, lease) d1 = Inr (acked, rb2, (o', lease'), d2)"
    "lease' = lease \<or> dotted_lease lease'"
    by (auto elim!: runs_toE)
  have "dotted_lease lease'" if "acked"
    using wait_stop [of "ack_message dhcp_xid" fuel 50 lib usb rb1 "(offer_opts s, lease)" d1 rb2 "(o', lease')" d2]
      w(1) that ack_stop by (metis snd_conv)
  then show ?thesis using e(1) f(1) w by (simp add: dhcp_request_phase_def)
qed

lemma discover_runs:
  assumes "length rb = RNDIS_BUF_SIZE" "length eb = ETH_BUF_SIZE" "length (mac_addr st) = 6"
    and "fitting_device lib usb" "RNDIS_BUF_SIZE < fuel"
  shows "runs_to (dhcp_discover fuel lib usb rb eb st lease d) (\<lambda>(ret, lease', d').
    ret = 0 \<and> dotted_lease lease' \<or> ret = -1 \<and> (lease' = lease \<or> dotted_lease lease'))"
proof -
  let ?s0 = "\<lparr>offered_addr = 0, server_addr = 0, offer_opts = zero_opts\<rparr>"
  obtain eth1 where e: "dhcp_build_discover eb ETH_BUF_SIZE (mac_addr st) dhcp_xid = Inr (300, eth1)"
    "length eth1 = ETH_BUF_SIZE" using discover_frame [OF assms(3,2)] .
  obtain ret rb1 d1 where f: "send_frame lib usb rb eth1 300 d = Inr (ret, rb1, d1)" "length rb1 = RNDIS_BUF_SIZE"
    using send_frame_runs [OF assms(1), of 300 eth1 lib usb d] e(2) by (auto elim!: runs_toE)
  have "runs_to (wait_answer (offer_message dhcp_xid) fuel 50 lib usb rb1 ?s0 d1)
      (\<lambda>(found, buf', s', d'). length buf' = RNDIS_BUF_SIZE \<and> True)"
    by (rule offer.wait_runs [OF assms(4,5)]) (use f(2) in \<open>auto intro: transfer_okD(2)\<close>)
  then obtain found rb2 s d2 where w:
    "wait_answer (offer_message dhcp_xid) fuel 50 lib usb rb1 ?s0 d1 = Inr (found, rb2, s, d2)" "length rb2 = RNDIS_BUF_SIZE"
    by (auto elim!: runs_toE)
  show ?thesis
    using e(1) f(1) w(1) request_phase_runs [OF w(2) e(2) assms(3-5), of s lease d2]
    by (simp add: dhcp_discover_def)
qed

section \<open>Properties\<close>


text \<open>A device that sends a message that is no frame whenever it is asked.\<close>

definition chatty_message :: buffer where
  "chatty_message = [8, 0, 0, 0, 8, 0, 0, 0]"

definition chatty_lib :: "nat libusb" where
  "chatty_lib = silent_lib\<lparr>lib_bulk_in := (\<lambda>_ _ _ d. ((None, chatty_message), d + 1))\<rparr>"

lemma chatty_fits: "fitting_device chatty_lib usb"
proof -
  have m: "length chatty_message = 8" by (simp add: chatty_message_def)
  have "transfer_ok (chatty_message @ rest) 8" for rest
    by (simp add: chatty_message_def transfer_ok_def no_wrap_def u32_at_def u32_of_def answer_fits_def
        rndis_parse_data_packet_def)
  with m show ?thesis by (simp add: fitting_device_def chatty_lib_def)
qed


end
