(* ===== verification/Session_Loop.thy ===== *)
theory Session_Loop
  imports Session Dhcp_Safe
begin

text \<open>
  Properties of the session of \<open>Session\<close>: its address, that it returns, what ends it and what does
  not, and the pace of the keepalives.
\<close>

section \<open>The address\<close>

lemma digit_value_digit_mod: "digit_value (digit n) = Some (int (n mod 10))"
  by (simp add: digit_def)

lemma digit_value_dot: "digit_value (CHR ''.'') = None"
  by (simp add: digit_value_def)

lemma pton_first_digit: "pton_parts (digit k # cs) parts None = pton_parts cs parts (Some (int (k mod 10)))"
  by (simp add: digit_value_digit_mod)

lemma pton_next_digit:
  "0 < v \<Longrightarrow> 10 * v + k mod 10 < 256 \<Longrightarrow>
     pton_parts (digit k # cs) parts (Some (int v)) = pton_parts cs parts (Some (int (10 * v + k mod 10)))"
  by (simp add: digit_value_digit_mod)

lemma pton_decimal_byte:
  "pton_parts (decimal_byte b @ rest) parts None = pton_parts rest parts (Some (uint b))"
proof -
  define n where "n = unat b"
  have b: "uint b = int n" "n < 256" by (simp_all add: n_def)
  consider "n < 10" | "10 \<le> n" "n < 100" | "100 \<le> n" by linarith
  then show ?thesis
  proof cases
    case 1
    then show ?thesis using b by (simp add: decimal_byte_def pton_first_digit flip: n_def del: pton_parts.simps)
  next
    case 2
    have "pton_parts (digit (n div 10) # digit n # rest) parts None = pton_parts rest parts (Some (int n))"
      using 2 pton_next_digit [of "n div 10" n rest parts] by (simp add: pton_first_digit del: pton_parts.simps)
    then show ?thesis using b 2 by (simp add: decimal_byte_def flip: n_def del: pton_parts.simps)
  next
    case 3
    have d: "n div 100 mod 10 = n div 100" "10 * (n div 100) + n div 10 mod 10 = n div 10"
        "0 < n div 100" "0 < n div 10" "n div 10 < 256" "10 * (n div 10) + n mod 10 = n"
    proof -
      have "n div 100 < 10" "n div 100 = n div 10 div 10" using b(2) by (simp_all add: div_mult2_eq [symmetric])
      then show "n div 100 mod 10 = n div 100" "10 * (n div 100) + n div 10 mod 10 = n div 10" by simp_all
      show "0 < n div 100" "0 < n div 10" using 3 by (simp_all add: div_greater_zero_iff)
      show "n div 10 < 256" "10 * (n div 10) + n mod 10 = n" using b(2) by simp_all
    qed
    have "pton_parts (digit (n div 100) # digit (n div 10) # digit n # rest) parts None =
        pton_parts rest parts (Some (int n))"
      using pton_next_digit [of "n div 100" "n div 10" "digit n # rest" parts]
        pton_next_digit [of "n div 10" n rest parts] b(2)
      by (simp add: pton_first_digit d del: pton_parts.simps)
    then show ?thesis using b 3 by (simp add: decimal_byte_def flip: n_def del: pton_parts.simps)
  qed
qed

lemma pton_dot: "length parts < 3 \<Longrightarrow> pton_parts (CHR ''.'' # s) parts (Some v) = pton_parts s (parts @ [v]) None"
  by (simp add: digit_value_dot)

lemma inet_pton_ntoa: "inet_pton (inet_ntoa a) = Some a"
proof -
  obtain w x y z where a: "a = u32_of w x y z" using u32_of_le32 by metis
  have "pton_parts (decimal_byte w @ ''.'' @ decimal_byte x @ ''.'' @ decimal_byte y @ ''.'' @ decimal_byte z) [] None =
      Some [uint w, uint x, uint y, uint z]"
    using pton_decimal_byte [of z "[]"] by (simp add: pton_decimal_byte pton_dot del: pton_parts.simps) simp
  then show ?thesis by (simp add: inet_pton_def a inet_ntoa_u32_of)
qed

text \<open>
  The address of a lease is never refused: whatever address the server acknowledges, its text in
  the lease is read back by \<open>inet_pton\<close> as the same address, which the session then answers ARP
  requests for; and the built-in address for a failed DHCP is valid too.
\<close>

theorem leased_address_accepted:
  "inet_pton (n_ip (lease_config (lease_of addr opts))) = Some addr \<and>
   inet_pton (n_ip fallback_config) = Some (u32_of 192 168 42 100)"
proof
  have "inet_pton ''192.168.42.100'' = inet_pton (inet_ntoa (u32_of 192 168 42 100))"
    unfolding inet_ntoa_u32_of by (simp add: decimal_byte_def Let_def digit_def)
  then show "inet_pton (n_ip fallback_config) = Some (u32_of 192 168 42 100)"
    by (simp add: fallback_config_def DEFAULT_STATIC_IP_def inet_pton_ntoa)
  show "inet_pton (n_ip (lease_config (lease_of addr opts))) = Some addr"
    by (simp add: lease_config_def lease_of_def inet_ntoa_dotted inet_pton_ntoa)
qed

section \<open>The rounds of the loop\<close>

text \<open>What the keepalive part of a round may change.\<close>

definition after_keepalive :: "tick \<Rightarrow> loop_state \<times> 'd world \<Rightarrow> loop_state \<times> 'd world \<Rightarrow> bool" where
  "after_keepalive k = (\<lambda>(lp, w) (lp', w').
     lp_running lp' = lp_running lp \<and> last_stats lp' = last_stats lp \<and> w_globals w' = w_globals w \<and>
     w_ipc w' = w_ipc w \<and> w_files w' = w_files w \<and>
     (if k_now k - last_keepalive lp \<ge> 30
      then last_keepalive lp' = k_now k \<and> w_calls w' = w_calls w @ [Keepalive (k_now k)]
      else last_keepalive lp' = last_keepalive lp \<and> w_calls w' = w_calls w))"

text \<open>
  A round sees a request to stop when it looks for one, at most once per second: a dead user
  interface (outside watch mode), the stop file, or a command of a client.
\<close>

definition polled :: "tick \<Rightarrow> 'd world \<Rightarrow> int" where
  "polled k w = fst (snd (ipc_server_poll (k_accepted k) (k_reads k) (w_ipc w)))"

definition trigger_present :: "tick \<Rightarrow> 'd world \<Rightarrow> bool" where
  "trigger_present k w \<longleftrightarrow> k_stop_file k \<or> w_files w STOP_TRIGGER_PATH \<noteq> None"

definition ui_lost :: "tick \<Rightarrow> 'd world \<Rightarrow> bool" where
  "ui_lost k w \<longleftrightarrow> \<not> g_watch_mode (w_globals w) \<and> ui_died k (w_globals w)"

definition stop_seen :: "tick \<Rightarrow> loop_state \<times> 'd world \<Rightarrow> bool" where
  "stop_seen k = (\<lambda>(lp, w). k_now k - last_stats lp \<ge> 1 \<and>
     (ui_lost k w \<or> trigger_present k w \<or> polled k w = IPC_CMD_STOP \<or> polled k w = IPC_CMD_DISABLE))"

lemma count_round_keeps:
  "count_round env k (lp, w) = (lp', w') \<Longrightarrow>
     lp_running lp' = lp_running lp \<and> w_globals w' = w_globals w \<and> w_ipc w' = w_ipc w \<and>
     last_keepalive lp' = last_keepalive lp \<and>
     w_files w' STOP_TRIGGER_PATH = w_files w STOP_TRIGGER_PATH"
  by (auto simp: count_round_def Let_def publish_stats_def)

text \<open>The effect of the three checks on the flags.\<close>

definition checked :: "tick \<Rightarrow> loop_state \<times> 'd world \<Rightarrow> loop_state \<times> 'd world \<Rightarrow> bool" where
  "checked k = (\<lambda>(lp, w) (lp', w').
     let stopped = ui_lost k w \<or> trigger_present k w;
         cmd = polled k w; ends = (cmd = IPC_CMD_STOP \<or> cmd = IPC_CMD_DISABLE); g = w_globals w
     in lp_running lp' = (lp_running lp \<and> \<not> stopped \<and> \<not> ends) \<and>
        g_running (w_globals w') = (g_running g \<and> \<not> stopped \<and> \<not> (ends \<and> \<not> g_watch_mode g)) \<and>
        g_watch_enabled (w_globals w') = (cmd = IPC_CMD_ENABLE \<or> cmd \<noteq> IPC_CMD_DISABLE \<and> g_watch_enabled g) \<and>
        g_watch_mode (w_globals w') = g_watch_mode g \<and> w_files w' STOP_TRIGGER_PATH = None \<and>
        w_ipc w' = fst (ipc_server_poll (k_accepted k) (k_reads k) (w_ipc w)))"

lemma ui_check_eq:
  "ui_check k (lp, w) = (if ui_lost k w then stop_all (lp, w) else (lp, w))"
  by (simp add: ui_check_def ui_lost_def)

lemma trigger_check_eq:
  "trigger_check k (lp, w) =
     (let w' = w\<lparr>w_files := (w_files w)(STOP_TRIGGER_PATH := None)\<rparr>
      in if trigger_present k w then stop_all (lp, w') else (lp, w'))"
  by (auto simp: trigger_check_def poll_trigger_def stats_check_stop_trigger_def trigger_present_def Let_def
      fun_upd_idem)

lemma command_check_eq:
  "command_check k (lp, w) =
     (if w_ipc w = None then (lp, w)
      else let (srv, cmd, calls) = ipc_server_poll (k_accepted k) (k_reads k) (w_ipc w)
           in session_command cmd (lp, act (map Ipc calls @ [Polled cmd]) (w\<lparr>w_ipc := srv\<rparr>)))"
  by (auto simp: command_check_def poll_ipc_def split: prod.splits)

lemma polled_no_server: "w_ipc w = None \<Longrightarrow> polled k w = 0 \<and> fst (ipc_server_poll (k_accepted k) (k_reads k) (w_ipc w)) = None"
  by (simp add: polled_def ipc_server_poll_def)

lemma checks: "checked k (lp, w) (command_check k (trigger_check k (ui_check k (lp, w))))"
proof -
  obtain srv cmd calls where p: "ipc_server_poll (k_accepted k) (k_reads k) (w_ipc w) = (srv, cmd, calls)"
    by (metis prod_cases3)
  show ?thesis
    using polled_no_server [of w k] p
    by (cases "ui_lost k w"; cases "trigger_present k w"; cases "w_ipc w = None")
      (auto simp: checked_def ui_check_eq trigger_check_eq command_check_eq stop_all_def session_command_def
        trigger_present_def polled_def ui_lost_def Let_def)
qed

text \<open>The effect of a whole round: the flags change only when the round looks for requests.\<close>

definition round_effect :: "tick \<Rightarrow> loop_state \<times> 'd world \<Rightarrow> loop_state \<times> 'd world \<Rightarrow> bool" where
  "round_effect k = (\<lambda>(lp, w) (lp', w').
     if k_now k - last_stats lp \<ge> 1 then checked k (lp, w) (lp', w') \<and> last_stats lp' = k_now k
     else lp_running lp' = lp_running lp \<and> last_stats lp' = last_stats lp \<and> w_globals w' = w_globals w \<and>
       w_ipc w' = w_ipc w \<and> w_files w' STOP_TRIGGER_PATH = w_files w STOP_TRIGGER_PATH)"

lemma checked_transfer:
  "lp_running lp1 = lp_running lp \<Longrightarrow> w_globals w1 = w_globals w \<Longrightarrow> w_ipc w1 = w_ipc w \<Longrightarrow>
     w_files w1 STOP_TRIGGER_PATH = w_files w STOP_TRIGGER_PATH \<Longrightarrow> checked k (lp1, w1) s' = checked k (lp, w) s'"
  by (simp add: checked_def ui_lost_def trigger_present_def polled_def)

lemma checks_keep_times:
  "last_keepalive (fst (command_check k (trigger_check k (ui_check k s)))) = last_keepalive (fst s)"
  "last_stats (fst (command_check k (trigger_check k (ui_check k s)))) = last_stats (fst s)"
  by (cases s; auto simp: ui_check_eq trigger_check_eq command_check_eq stop_all_def session_command_def Let_def
      split: prod.splits)+

lemma stats_round_effect:
  assumes "after_keepalive k (lp, w) (lp1, w1)"
  shows "round_effect k (lp, w) (stats_round env k (lp1, w1)) \<and>
    last_keepalive (fst (stats_round env k (lp1, w1))) = last_keepalive lp1"
proof (cases "k_now k - last_stats lp \<ge> 1")
  case False
  with assms show ?thesis by (simp add: stats_round_def round_effect_def after_keepalive_def)
next
  case True
  obtain lp2 w2 where c: "count_round env k (lp1, w1) = (lp2, w2)" by fastforce
  have keep: "lp_running lp1 = lp_running lp" "w_globals w1 = w_globals w" "w_ipc w1 = w_ipc w" "w_files w1 = w_files w"
    "last_stats lp1 = last_stats lp" using assms by (simp_all add: after_keepalive_def)
  note count = count_round_keeps [OF c]
  have "last_stats lp2 = k_now k" using c by (auto simp: count_round_def Let_def)
  moreover have "checked k (lp, w) (command_check k (trigger_check k (ui_check k (lp2, w2))))"
    using checks [of k lp2 w2] checked_transfer [of lp2 lp w2 w k] count keep by simp
  ultimately show ?thesis
    using True keep count checks_keep_times [of k "(lp2, w2)"]
    by (cases "command_check k (trigger_check k (ui_check k (lp2, w2)))") (simp add: stats_round_def round_effect_def c)
qed

text \<open>A round in which nothing asks the session to end.\<close>

definition calm :: "tick \<Rightarrow> bool" where
  "calm k \<longleftrightarrow> \<not> k_signal k \<and> \<not> k_bridge_down k \<and> \<not> k_stop_file k \<and> k_ui_alive k \<and>
     (\<forall>fd. command_of (text_of (k_reads k) fd) 0 \<notin> {IPC_CMD_STOP, IPC_CMD_DISABLE})"

lemma calm_polled: "calm k \<Longrightarrow> polled k w \<notin> {IPC_CMD_STOP, IPC_CMD_DISABLE}"
proof (cases "w_ipc w")
  case None
  then show ?thesis by (simp add: polled_no_server)
next
  case (Some s)
  assume c: "calm k"
  obtain srv cmd calls where p: "ipc_server_poll (k_accepted k) (k_reads k) (Some s) = (srv, cmd, calls)"
    by (metis prod_cases3)
  show ?thesis
    using poll_command [OF p refl] c p Some by (auto simp: calm_def polled_def split: if_splits)
qed

lemma calm_effect:
  assumes "calm k" "round_effect k (lp, w) (lp', w')" "w_files w STOP_TRIGGER_PATH = None"
    "lp_running lp" "g_running (w_globals w)"
  shows "lp_running lp' \<and> g_running (w_globals w') \<and> w_files w' STOP_TRIGGER_PATH = None"
  using assms calm_polled [OF assms(1), of w]
  by (auto simp: round_effect_def checked_def calm_def ui_lost_def ui_died_def trigger_present_def Let_def split: if_splits)

text \<open>The times of the keepalives in a log.\<close>

definition keepalive_times :: "session_call list \<Rightarrow> int list" where
  "keepalive_times cs = concat (map (\<lambda>c. case c of Keepalive t \<Rightarrow> [t] | _ \<Rightarrow> []) cs)"

lemma keepalive_times_simps [simp]:
  "keepalive_times [] = []" "keepalive_times (xs @ ys) = keepalive_times xs @ keepalive_times ys"
  "keepalive_times (c # cs) = (case c of Keepalive t \<Rightarrow> [t] | _ \<Rightarrow> []) @ keepalive_times cs"
  "keepalive_times (map Ipc is) = []"
  by (simp_all add: keepalive_times_def)

lemma checks_no_keepalive:
  "keepalive_times (w_calls (snd (command_check k (trigger_check k (ui_check k s))))) = keepalive_times (w_calls (snd s))"
  by (cases s) (auto simp: ui_check_eq trigger_check_eq command_check_eq stop_all_def session_command_def Let_def
      split: prod.splits)

lemma stats_round_no_keepalive:
  "keepalive_times (w_calls (snd (stats_round env k s))) = keepalive_times (w_calls (snd s))"
proof (cases s)
  case (Pair lp w)
  have "keepalive_times (w_calls (snd (count_round env k s))) = keepalive_times (w_calls (snd s))"
    by (simp add: Pair count_round_def Let_def publish_stats_def)
  then show ?thesis by (simp add: stats_round_def checks_no_keepalive)
qed

text \<open>Times that do not go back, with steps of at most \<open>step\<close> seconds.\<close>

definition paced :: "int \<Rightarrow> int list \<Rightarrow> bool" where
  "paced step = successively (\<lambda>a b. a \<le> b \<and> b \<le> a + step)"

definition kept_pace :: "int \<Rightarrow> int list \<Rightarrow> bool" where
  "kept_pace step = successively (\<lambda>a b. 30 \<le> b - a \<and> b - a < 30 + step)"

text \<open>What a round of the loop needs of the driver: its keepalive returns.\<close>

locale session_driver =
  fixes env :: "('d, 'f) session_env" and drv :: "('d, unit) proto_driver"
  assumes keepalive_returns:
    "length (s_ctrl_buf env) = RNDIS_BUF_SIZE \<longrightarrow>
      (\<exists>f. drv_keepalive drv = Some f \<and> (\<forall>st d. \<exists>x. f (s_ctrl_buf env) st d = Inr x))"
begin

lemma session_tick_runs:
  assumes "length (s_ctrl_buf env) = RNDIS_BUF_SIZE"
  shows "\<exists>s1. session_tick env drv k s = Inr (stats_round env k s1) \<and> after_keepalive k s s1"
proof -
  obtain lp w where s: "s = (lp, w)" by fastforce
  obtain f where f: "drv_keepalive drv = Some f" "\<forall>st d. \<exists>x. f (s_ctrl_buf env) st d = Inr x"
    using keepalive_returns assms by auto
  then obtain x where "f (s_ctrl_buf env) (lp_rndis lp) (w_dev w) = Inr x" by blast
  then have "\<exists>s1. keepalive_round env drv k s = Inr s1 \<and> after_keepalive k s s1"
    using f(1) by (cases x) (simp add: s keepalive_round_def after_keepalive_def)
  then show ?thesis unfolding session_tick_def by fastforce
qed

lemma tick_effect:
  assumes "length (s_ctrl_buf env) = RNDIS_BUF_SIZE"
  shows "\<exists>s'. session_tick env drv k (lp, w) = Inr s' \<and> round_effect k (lp, w) s' \<and>
    last_keepalive (fst s') = (if k_now k - last_keepalive lp \<ge> 30 then k_now k else last_keepalive lp)"
proof -
  obtain lp1 w1 where "session_tick env drv k (lp, w) = Inr (stats_round env k (lp1, w1))"
    "after_keepalive k (lp, w) (lp1, w1)" using session_tick_runs [OF assms, of k "(lp, w)"] by fastforce
  with stats_round_effect [OF this(2), of env] show ?thesis by (auto simp: after_keepalive_def)
qed

lemma calm_loop:
  assumes "length (s_ctrl_buf env) = RNDIS_BUF_SIZE"
  shows "list_all calm ks \<Longrightarrow> g_running (w_globals w) \<Longrightarrow> lp_running lp \<Longrightarrow> w_files w STOP_TRIGGER_PATH = None \<Longrightarrow>
    session_loop env drv ks (lp, w) = Inl No_Fuel"
proof (induction ks arbitrary: lp w)
  case (Cons k ks)
  obtain lp' w' where t: "session_tick env drv k (lp, w) = Inr (lp', w')" "round_effect k (lp, w) (lp', w')"
    using tick_effect [OF assms, of k lp w] by fastforce
  have k: "calm k" using Cons.prems(1) by simp
  then have "observe k (lp, w) = (lp, w)" by (simp add: observe_def calm_def)
  moreover have "session_loop env drv ks (lp', w') = Inl No_Fuel"
    using calm_effect [OF k t(2)] Cons by simp
  ultimately show ?case using t(1) Cons.prems by simp
qed simp

lemma tick_keepalive_times:
  assumes "length (s_ctrl_buf env) = RNDIS_BUF_SIZE" "session_tick env drv k (lp, w) = Inr (lp', w')"
  shows "keepalive_times (w_calls w') = keepalive_times (w_calls w) @
      (if k_now k - last_keepalive lp \<ge> 30 then [k_now k] else []) \<and>
    last_keepalive lp' = (if k_now k - last_keepalive lp \<ge> 30 then k_now k else last_keepalive lp)"
proof -
  obtain s1 where s1: "session_tick env drv k (lp, w) = Inr (stats_round env k s1)" "after_keepalive k (lp, w) s1"
    using session_tick_runs [OF assms(1)] by blast
  then have "(lp', w') = stats_round env k s1" using assms(2) by simp
  then show ?thesis
    using s1(2) stats_round_no_keepalive [of env k s1] stats_round_effect [of k lp w "fst s1" "snd s1" env]
    by (cases s1) (auto simp: after_keepalive_def dest: arg_cong [of _ _ fst] arg_cong [of _ _ snd])
qed

lemma loop_kept_pace:
  assumes "length (s_ctrl_buf env) = RNDIS_BUF_SIZE" "0 \<le> step"
  shows "session_loop env drv ks (lp, w) = Inr (lp', w') \<Longrightarrow> paced step (p # map k_now ks) \<Longrightarrow>
    last_keepalive lp \<le> p \<Longrightarrow> p - last_keepalive lp < 30 \<Longrightarrow>
    \<exists>ts. keepalive_times (w_calls w') = keepalive_times (w_calls w) @ ts \<and> kept_pace step (last_keepalive lp # ts)"
proof (induction ks arbitrary: lp w p)
  case (Cons k ks)
  obtain lp0 w0 where o: "observe k (lp, w) = (lp0, w0)" by fastforce
  then have keep: "last_keepalive lp0 = last_keepalive lp" "w_calls w0 = w_calls w" by (auto simp: observe_def)
  have pace: "p \<le> k_now k" "k_now k \<le> p + step" "paced step (k_now k # map k_now ks)"
    using Cons.prems(2) by (auto simp: paced_def)
  show ?case
  proof (cases "g_running (w_globals w0) \<and> lp_running lp0")
    case False
    with Cons.prems(1) o keep show ?thesis by (auto simp: kept_pace_def)
  next
    case True
    obtain lp1 w1 where t: "session_tick env drv k (lp0, w0) = Inr (lp1, w1)"
      using tick_effect [OF assms(1), of k lp0 w0] by fastforce
    note times = tick_keepalive_times [OF assms(1) t]
    have "session_loop env drv ks (lp1, w1) = Inr (lp', w')" using Cons.prems(1) o True t by simp
    moreover have "last_keepalive lp1 \<le> k_now k" "k_now k - last_keepalive lp1 < 30"
      using times keep pace Cons.prems(3,4) by auto
    ultimately obtain ts where ts: "keepalive_times (w_calls w') = keepalive_times (w_calls w1) @ ts"
      "kept_pace step (last_keepalive lp1 # ts)"
      using Cons.IH [OF _ pace(3)] by blast
    then show ?thesis
    proof (cases "k_now k - last_keepalive lp \<ge> 30")
      case True
      with ts times keep pace Cons.prems(4) show ?thesis
        by (intro exI [of _ "k_now k # ts"]) (auto simp: kept_pace_def)
    qed (use times keep in auto)
  qed
qed simp

lemma stop_seen_ends:
  assumes "length (s_ctrl_buf env) = RNDIS_BUF_SIZE" "stop_seen k (lp, w)" "g_running (w_globals w)" "lp_running lp"
    "\<not> k_signal k" "\<not> k_bridge_down k"
  shows "\<exists>lp' w'. session_loop env drv (k # k' # ks) (lp, w) = Inr (observe k' (lp', w')) \<and> round_effect k (lp, w) (lp', w')"
proof -
  obtain lp' w' where t: "session_tick env drv k (lp, w) = Inr (lp', w')" "round_effect k (lp, w) (lp', w')"
    using tick_effect [OF assms(1), of k lp w] by fastforce
  then have "\<not> lp_running lp'" using assms(2) by (auto simp: round_effect_def stop_seen_def checked_def Let_def)
  then have o': "observe k' (lp', w') = (lp'', w'') \<Longrightarrow> \<not> lp_running lp''" for lp'' w''
    by (auto simp: observe_def)
  have o: "observe k (lp, w) = (lp, w)" using assms(5,6) by (simp add: observe_def)
  have "session_loop env drv (k' # ks) (lp', w') = Inr (observe k' (lp', w'))"
    using o' by (cases "observe k' (lp', w')") simp
  then have "session_loop env drv (k # k' # ks) (lp, w) = Inr (observe k' (lp', w'))"
    using t(1) o assms(3,4) by (simp del: session_loop.simps(2) add: session_loop.simps(2) [of _ _ k])
  with t(2) show ?thesis by blast
qed

lemma loop_returns:
  assumes "length (s_ctrl_buf env) = RNDIS_BUF_SIZE" "\<exists>k \<in> set ks. k_signal k \<or> k_bridge_down k"
  shows "\<exists>x. session_loop env drv ks (lp, w) = Inr x"
  using assms(2)
proof (induction ks arbitrary: lp w)
  case (Cons k ks)
  obtain lp0 w0 where o: "observe k (lp, w) = (lp0, w0)" by fastforce
  show ?case
  proof (cases "g_running (w_globals w0) \<and> lp_running lp0")
    case True
    then have "\<exists>k \<in> set ks. k_signal k \<or> k_bridge_down k"
      using Cons.prems o by (auto simp: observe_def signal_handler_def split: if_splits)
    then have "\<exists>x. session_loop env drv ks s1 = Inr x" for s1 using Cons.IH by (cases s1) auto
    moreover obtain s1 where "session_tick env drv k (lp0, w0) = Inr (stats_round env k s1)"
      using session_tick_runs [OF assms(1)] by blast
    ultimately show ?thesis using o True by simp
  qed (use o in auto)
qed simp

end

text \<open>The driver table that a session with enough memory works with.\<close>

definition rndis_table :: "'d libusb \<Rightarrow> usb_device \<Rightarrow> ('d, unit) proto_driver" where
  "rndis_table lib usb = the (proto_rndis_create True True lib usb)"

interpretation rndis: session_driver env "rndis_table lib usb" for env lib usb
proof
  show "length (s_ctrl_buf env) = RNDIS_BUF_SIZE \<longrightarrow>
      (\<exists>f. drv_keepalive (rndis_table lib usb) = Some f \<and> (\<forall>st d. \<exists>x. f (s_ctrl_buf env) st d = Inr x))"
    using ctrl.keepalive_runs [of "s_ctrl_buf env" lib usb]
    by (auto simp: rndis_table_def proto_rndis_create_def rndis_drv_keepalive_def runs_to_iff; metis)
qed

text \<open>
  C10: A request to stop takes effect at once: a round that finds the stop file, a dead user interface
  (outside watch mode), or a stop or disable command is the last one of the session, whatever the
  rounds after the next would bring.  The stop file ends the daemon and is gone; in watch mode a
  command leaves the daemon running, and only disable switches the automatic connection off.
\<close>

theorem stop_request_ends_session:
  assumes "length (s_ctrl_buf env) = RNDIS_BUF_SIZE" "stop_seen k (lp, w)"
    and "g_running (w_globals w)" "lp_running lp" "\<not> k_signal k" "\<not> k_bridge_down k" "\<not> k_signal k'"
  shows "\<exists>lp' w'. session_loop env (rndis_table lib usb) (k # k' # ks) (lp, w) = Inr (lp', w') \<and>
    w_files w' STOP_TRIGGER_PATH = None \<and> (trigger_present k w \<longrightarrow> \<not> g_running (w_globals w')) \<and>
    (g_watch_mode (w_globals w) \<and> \<not> trigger_present k w \<longrightarrow> g_running (w_globals w')) \<and>
    (polled k w = IPC_CMD_DISABLE \<longrightarrow> \<not> g_watch_enabled (w_globals w')) \<and>
    (polled k w = IPC_CMD_STOP \<longrightarrow> g_watch_enabled (w_globals w') = g_watch_enabled (w_globals w))"
proof -
  obtain lp' w' where l: "session_loop env (rndis_table lib usb) (k # k' # ks) (lp, w) = Inr (observe k' (lp', w'))"
    "round_effect k (lp, w) (lp', w')" using rndis.stop_seen_ends [OF assms(1-6)] by blast
  obtain lp'' where o: "observe k' (lp', w') = (lp'', w')" using assms(7) by (simp add: observe_def)
  have "checked k (lp, w) (lp', w')" using l(2) assms(2) by (auto simp: round_effect_def stop_seen_def)
  then have "w_files w' STOP_TRIGGER_PATH = None \<and> (trigger_present k w \<longrightarrow> \<not> g_running (w_globals w')) \<and>
      (g_watch_mode (w_globals w) \<and> \<not> trigger_present k w \<longrightarrow> g_running (w_globals w')) \<and>
      (polled k w = IPC_CMD_DISABLE \<longrightarrow> \<not> g_watch_enabled (w_globals w')) \<and>
      (polled k w = IPC_CMD_STOP \<longrightarrow> g_watch_enabled (w_globals w') = g_watch_enabled (w_globals w))"
    using assms(3) by (simp add: checked_def Let_def ui_lost_def)
  with l(1) show ?thesis unfolding o by blast
qed

lemma stop_request_ends_session_witness:
  "\<exists>lp' w'. session_loop demo_env (rndis_table scripted_lib zero_usb_device)
      [(demo_tick 100)\<lparr>k_stop_file := True\<rparr>, demo_tick 101, demo_tick 102] (start_loop zero_rndis_state, demo_world True) =
      Inr (lp', w') \<and> \<not> g_running (w_globals w')"
proof -
  let ?k = "(demo_tick 100)\<lparr>k_stop_file := True\<rparr>"
  have "stop_seen ?k (start_loop zero_rndis_state, demo_world True)" "trigger_present ?k (demo_world True)"
    by (simp_all add: stop_seen_def start_loop_def trigger_present_def demo_tick_def)
  with stop_request_ends_session [of demo_env ?k "start_loop zero_rndis_state" "demo_world True" "demo_tick 101"
      scripted_lib zero_usb_device "[demo_tick 102]"]
  show ?thesis by (auto simp: demo_env_def demo_world_def demo_tick_def start_loop_def)
qed

text \<open>
  C17: A session does not end by itself: through any number of rounds in which no signal arrives, the
  bridge keeps running, the user interface lives, no stop file appears and no client sends stop or
  disable, whatever else clients send and whatever the counters are, the loop is still running.
\<close>

theorem session_runs_on:
  assumes "length (s_ctrl_buf env) = RNDIS_BUF_SIZE" "list_all calm ks" "g_running (w_globals w)"
    and "w_files w STOP_TRIGGER_PATH = None"
  shows "session_loop env (rndis_table lib usb) ks (start_loop st, w) = Inl No_Fuel"
  using rndis.calm_loop [OF assms(1,2,3) _ assms(4)] by (simp add: start_loop_def)

lemma session_runs_on_witness:
  "session_loop demo_env (rndis_table scripted_lib zero_usb_device) [demo_tick 100, demo_tick 101]
     (start_loop zero_rndis_state, demo_world False) = Inl No_Fuel"
proof -
  have "calm (demo_tick t)" for t
    by (simp add: calm_def demo_tick_def text_of_def command_of_def quote_def)
  then show ?thesis
    using session_runs_on [of demo_env "[demo_tick 100, demo_tick 101]" "demo_world False"]
    by (simp add: demo_env_def demo_world_def)
qed

text \<open>
  C19: The keepalives keep the pace: in a session whose rounds follow each other by at most \<open>step\<close>
  seconds the first round sends one, and two successive ones are at least 30 and less than
  \<open>30 + step\<close> seconds apart.
\<close>

theorem keepalives_paced:
  assumes "length (s_ctrl_buf env) = RNDIS_BUF_SIZE" "0 \<le> step" "paced step (map k_now (k # ks))" "30 \<le> k_now k"
    and "session_loop env (rndis_table lib usb) (k # ks) (start_loop st, w) = Inr (lp', w')"
    and "g_running (w_globals w)" "\<not> k_signal k" "\<not> k_bridge_down k"
  shows "\<exists>ts. keepalive_times (w_calls w') = keepalive_times (w_calls w) @ k_now k # ts \<and> kept_pace step (k_now k # ts)"
proof -
  obtain lp1 w1 where t: "session_tick env (rndis_table lib usb) k (start_loop st, w) = Inr (lp1, w1)"
    using rndis.tick_effect [OF assms(1), of lib usb k "start_loop st" w] by fastforce
  note times = rndis.tick_keepalive_times [OF assms(1) t]
  have "observe k (start_loop st, w) = (start_loop st, w)" using assms(7,8) by (simp add: observe_def start_loop_def)
  then have "session_loop env (rndis_table lib usb) ks (lp1, w1) = Inr (lp', w')"
    using assms(5,6) t by (simp add: start_loop_def)
  from rndis.loop_kept_pace [OF assms(1,2) this, of "k_now k"] show ?thesis
    using times assms(3,4) by (auto simp: start_loop_def)
qed

lemma keepalives_paced_witness:
  "\<exists>lp' w' ts. session_loop demo_env (rndis_table scripted_lib zero_usb_device)
      [demo_tick 100, demo_tick 131, (demo_tick 132)\<lparr>k_signal := True\<rparr>] (start_loop zero_rndis_state, demo_world False) =
        Inr (lp', w') \<and> keepalive_times (w_calls w') = 100 # ts \<and> kept_pace 31 (100 # ts)"
proof -
  let ?ks = "[demo_tick 131, (demo_tick 132)\<lparr>k_signal := True\<rparr>]"
  have len: "length (s_ctrl_buf demo_env) = RNDIS_BUF_SIZE" by (simp add: demo_env_def)
  obtain lp' w' where "session_loop demo_env (rndis_table scripted_lib zero_usb_device) (demo_tick 100 # ?ks)
      (start_loop zero_rndis_state, demo_world False) = Inr (lp', w')"
    using rndis.loop_returns [OF len, of "demo_tick 100 # ?ks"] by fastforce
  with keepalives_paced [OF len, of 31 "demo_tick 100" ?ks scripted_lib zero_usb_device zero_rndis_state
      "demo_world False" lp' w']
  show ?thesis by (simp add: paced_def demo_tick_def demo_world_def)
qed

lemma returns_bind: "\<exists>x. m = Inr x \<Longrightarrow> (\<And>x. m = Inr x \<Longrightarrow> \<exists>y. f x = Inr y) \<Longrightarrow> \<exists>y. bindR m f = Inr y"
  by auto

lemma bridge_returns:
  assumes "length (s_ctrl_buf env) = RNDIS_BUF_SIZE" "length (s_rndis_buf env) = RNDIS_BUF_SIZE"
    and "length (s_eth_buf env) = ETH_BUF_SIZE" "\<exists>k \<in> set (s_ticks env). k_signal k \<or> k_bridge_down k"
    and "length mac = 6"
  shows "\<exists>x. bridge_session env usb (rndis_table (s_lib env) usb) st mac tun cfg our_ip w = Inr x"
  unfolding bridge_session_def
proof (rule returns_bind)
  show "\<exists>x. arp_send_gratuitous (s_lib env) usb (s_eth_buf env) (s_rndis_buf env) mac our_ip (w_dev w) = Inr x"
    by (simp only: gratuitous_arp_sent [OF assms(3,2,5)] sum.inject) (rule exI, rule refl)
qed (rule returns_bind [OF rndis.loop_returns [OF assms(1,4)]], simp add: Let_def split: prod.splits)

lemma tunnel_returns:
  assumes "length (s_ctrl_buf env) = RNDIS_BUF_SIZE" "length (s_rndis_buf env) = RNDIS_BUF_SIZE"
    and "length (s_eth_buf env) = ETH_BUF_SIZE" "\<exists>k \<in> set (s_ticks env). k_signal k \<or> k_bridge_down k"
    and "length mac = 6"
  shows "\<exists>x. tunnel_session env no_route no_dns usb (rndis_table (s_lib env) usb) st mac cfg our_ip w = Inr x"
  unfolding tunnel_session_def Let_def using bridge_returns [OF assms] by (simp split: prod.splits)

text \<open>What the choice of the addresses needs: a static one, or a device whose transfers fit.\<close>

definition addressed :: "('d, 'f) session_env \<Rightarrow> usb_device \<Rightarrow> string option \<Rightarrow> bool" where
  "addressed env usb ip \<longleftrightarrow> given ip \<or> RNDIS_BUF_SIZE < s_fuel env \<and> fitting_device (s_lib env) usb"

lemma addresses_return:
  assumes "length (s_rndis_buf env) = RNDIS_BUF_SIZE" "length (s_eth_buf env) = ETH_BUF_SIZE" "length (mac_addr st) = 6"
    and "addressed env usb ip"
  shows "\<exists>x. choose_addresses env usb st ip gw nm d = Inr x"
proof (cases "given ip")
  case False
  with assms(4) have f: "fitting_device (s_lib env) usb" "RNDIS_BUF_SIZE < s_fuel env" by (auto simp: addressed_def)
  from discover_runs [OF assms(1-3) f, of empty_lease d] show ?thesis
    by (auto simp: choose_addresses_def elim!: runs_toE)
qed (simp add: choose_addresses_def)

lemma driver_returns:
  assumes "length (s_ctrl_buf env) = RNDIS_BUF_SIZE" "length (s_rndis_buf env) = RNDIS_BUF_SIZE"
    and "length (s_eth_buf env) = ETH_BUF_SIZE" "\<exists>k \<in> set (s_ticks env). k_signal k \<or> k_bridge_down k"
    and "addressed env usb ip"
  shows "\<exists>x. driver_session env no_route no_dns ip gw nm usb (rndis_table (s_lib env) usb) w = Inr x"
  unfolding driver_session_def
proof (rule returns_bind)
  let ?drv = "rndis_table (s_lib env) usb"
  have drv: "drv_init ?drv = Some (rndis_drv_init (s_lib env) usb)" "drv_priv ?drv = zero_rndis_state"
    "drv_get_mac ?drv = Some rndis_drv_get_mac" by (simp_all add: rndis_table_def proto_rndis_create_def)
  have init: "runs_to (the (drv_init ?drv) (s_ctrl_buf env) (drv_priv ?drv) (w_dev w)) (\<lambda>(r, st, d). wf_rndis_state st)"
    unfolding drv option.sel rndis_drv_init_def using assms(1)
    by (intro runs_to_mono [OF ctrl.dialogue_runs]) (auto simp: wf_rndis_state_def zero_rndis_state_def)
  then show "\<exists>x. the (drv_init ?drv) (s_ctrl_buf env) (drv_priv ?drv) (w_dev w) = Inr x"
    by (auto simp: runs_to_iff)
  fix x assume x: "the (drv_init ?drv) (s_ctrl_buf env) (drv_priv ?drv) (w_dev w) = Inr x"
  obtain r st d where xs: "x = (r, st, d)" by (metis prod_cases3)
  have mac: "length (mac_addr st) = 6" using init x by (simp add: xs wf_rndis_state_def)
  note tunnel = tunnel_returns [OF assms(1-4) mac]
  obtain cfg d' where choice: "choose_addresses env usb st ip gw nm d = Inr (cfg, d')"
    using addresses_return [OF assms(2,3) mac assms(5)] by fastforce
  show "\<exists>y. (case x of (r, st, d) \<Rightarrow> let w1 = w\<lparr>w_dev := d\<rparr>
      in if r < 0 then Inr (give_up (close_usb usb w1))
         else let (r', device_mac) = the (drv_get_mac ?drv) st
              in if r' \<noteq> 0 then Inr (give_up (close_usb usb w1))
                 else bindR (choose_addresses env usb st ip gw nm d) (\<lambda>(cfg, d').
                   let w2 = w1\<lparr>w_dev := d'\<rparr>
                   in case inet_pton (n_ip cfg) of
                        None \<Rightarrow> Inr (give_up (close_usb usb w2))
                      | Some our_ip \<Rightarrow> tunnel_session env no_route no_dns usb ?drv st device_mac cfg our_ip w2)) = Inr y"
    using tunnel choice by (simp add: xs drv rndis_drv_get_mac_def Let_def split: option.splits)
qed


text \<open>The demonstration device with a DHCP client that gets no useful answer.\<close>

definition demo_chatty :: "(nat, int) session_env" where
  "demo_chatty = \<lparr>s_drv_mem = True, s_state_mem = True, s_lib = chatty_lib, s_usb_init = True,
     s_usb_list = Some [], s_ctrl_buf = replicate 32768 0, s_rndis_buf = replicate 32768 0,
     s_eth_buf = replicate 2048 0, s_fuel = 40000, s_signal_before = False, s_signal_after = False,
     s_socket = 5, s_info = True, s_connects = (\<lambda>_. True), s_flags = 0, s_shell = (\<lambda>_. 0),
     s_tx_alloc = (\<lambda>_. True), s_ticks = [demo_tick 100, (demo_tick 101)\<lparr>k_bridge_down := True\<rparr>],
     s_disconnected = False, s_rate = (\<lambda>bytes secs. uint bytes div secs), s_fmt2 = (\<lambda>_. ''0.00''),
     s_written = (\<lambda>_ json. int (length json))\<rparr>"


end
