(* ===== verification/Session_Net.thy ===== *)
theory Session_Net
  imports Session
begin

text \<open>
  The shell commands that a session runs, as a whole: what binds the host's network to the interface
  is undone at the end of the session.
\<close>

definition shells :: "session_call list \<Rightarrow> string list" where
  "shells cs = concat (map (\<lambda>c. case c of Shell s \<Rightarrow> [s] | _ \<Rightarrow> []) cs)"

lemma shells_simps [simp]:
  "shells [] = []" "shells (xs @ ys) = shells xs @ shells ys"
  "shells (c # cs) = (case c of Shell s \<Rightarrow> [s] | _ \<Rightarrow> []) @ shells cs"
  by (simp_all add: shells_def)

lemma shells_maps [simp]:
  "shells (map Shell ss) = ss" "shells (map Tun ts) = []" "shells (map Usb us) = []" "shells (map Ipc is) = []"
  by (induction ss, simp_all) (induction ts, simp_all, induction us, simp_all, induction "is", simp_all)

lemma shells_loop: "list_all loop_call cs \<Longrightarrow> shells cs = []"
  by (induction cs) (auto simp: loop_call_def split: session_call.splits)

lemma shells_pool [simp]: "shells (tx_pool_alloc env) = []" "shells (tx_pool_free env) = []"
  by (auto simp: shells_def tx_pool_alloc_def tx_pool_free_def)

lemma shells_close [simp]:
  "shells (w_calls (close_usb usb w)) = shells (w_calls w)" "shells (w_calls (close_tun tun w)) = shells (w_calls w)"
  by (simp_all add: close_usb_def close_tun_def)

lemma shells_give_up [simp]: "give_up w = (r, w') \<longleftrightarrow> w' = w \<and> r = (if g_running (w_globals w) then 1 else 0)"
  by (auto simp: give_up_def)

text \<open>The commands that undo the network settings, from the settings of the daemon.\<close>

definition undo_commands :: "globals \<Rightarrow> string list" where
  "undo_commands g =
     (if g_no_route g then []
      else [''route delete -net 0.0.0.0/1 2>/dev/null'', ''route delete -net 128.0.0.0/1 2>/dev/null'']) @
     utun_unregister_service @ (if g_no_dns g then [] else fst utun_restore_dns)"

lemma restore_undoes:
  "g_network_bound g \<Longrightarrow> same_settings g0 g \<Longrightarrow> shells (snd (restore_network_state g)) = undo_commands g0"
  by (auto simp: restore_network_state_def undo_commands_def same_settings_def)

text \<open>What the commands of a session are: none, a failed configuration, or everything and its undoing.\<close>

definition session_commands ::
    "(string \<Rightarrow> int) \<Rightarrow> globals \<Rightarrow> bool \<Rightarrow> bool \<Rightarrow> utun \<Rightarrow> net_config \<Rightarrow> string list \<Rightarrow> bool" where
  "session_commands sh g no_route no_dns tun cfg cmds \<longleftrightarrow>
     (let (r, conf) = utun_configure sh tun (n_ip cfg) (n_gateway cfg) (n_netmask cfg)
      in cmds = [] \<or> r < 0 \<and> cmds = conf \<or>
         r = 0 \<and> cmds = conf @ network_commands sh no_route no_dns tun cfg @ undo_commands g)"

lemma bridge_commands:
  assumes "bridge_session env usb drv st device_mac tun cfg our_ip w = Inr (r, w')" "g_network_bound (w_globals w)"
  shows "shells (w_calls w') = shells (w_calls w) @ undo_commands (w_globals w)"
proof -
  obtain up down closing g g' undo where c: "list_all loop_call up" "list_all loop_call down" "list_all loop_call closing"
    "same_settings (w_globals w) g" "restore_network_state g = (g', undo)"
    "w_calls w' = w_calls w @ up @ tx_pool_alloc env @ [Threads_Start] @ down @ [Threads_Join] @ tx_pool_free env @
       closing @ undo @ map Tun (snd (utun_close tun)) @ map Usb (snd (usb_close_device usb)) @ [Driver_Free]"
    using bridge_session_calls [OF assms(1)] by metis
  have "g_network_bound g" using c(4) assms(2) by (simp add: same_settings_def)
  from restore_undoes [OF this c(4)] c(5) show ?thesis by (simp add: c(6) shells_loop [OF c(1)] shells_loop [OF c(2)] shells_loop [OF c(3)])
qed

lemma undo_commands_settings:
  "g_no_route g' = g_no_route g \<Longrightarrow> g_no_dns g' = g_no_dns g \<Longrightarrow> undo_commands g' = undo_commands g"
  by (simp add: undo_commands_def)

lemma tunnel_commands:
  assumes "tunnel_session env no_route no_dns usb drv st device_mac cfg our_ip w = Inr (r, w')"
  shows "\<exists>tun cmds. shells (w_calls w') = shells (w_calls w) @ cmds \<and>
    session_commands (s_shell env) (w_globals w) no_route no_dns tun cfg cmds"
proof -
  obtain q tun log where c: "utun_create (s_socket env) (s_info env) (s_connects env) (s_flags env) = (q, tun, log)"
    by (metis prod_cases3)
  obtain q' conf where f: "utun_configure (s_shell env) tun (n_ip cfg) (n_gateway cfg) (n_netmask cfg) = (q', conf)"
    by fastforce
  have q': "q' = 0 \<or> q' < 0" using f by (auto simp: utun_configure_def Let_def split: if_splits)
  consider (created) "q < 0" | (configured) "q \<ge> 0" "q' < 0" | (bound) "q \<ge> 0" "q' \<ge> 0" by linarith
  then show ?thesis
  proof cases
    case created
    with assms c have "shells (w_calls w') = shells (w_calls w) @ []" by (auto simp: tunnel_session_def)
    then show ?thesis by (intro exI [of _ tun] exI [of _ "[]"]) (simp add: session_commands_def f)
  next
    case configured
    with assms c f have "shells (w_calls w') = shells (w_calls w) @ conf" by (auto simp: tunnel_session_def)
    then show ?thesis using configured by (intro exI [of _ tun] exI [of _ conf]) (simp add: session_commands_def f)
  next
    case bound
    let ?w4 = "(act (map Shell (network_commands (s_shell env) no_route no_dns tun cfg)) (act (map Shell conf) (act (map Tun log) w)))
        \<lparr>w_globals := (w_globals w)\<lparr>g_network_bound := True\<rparr>\<rparr>"
    have b: "bridge_session env usb drv st device_mac tun cfg our_ip ?w4 = Inr (r, w')"
      using assms c f bound by (simp add: tunnel_session_def Let_def)
    have "shells (w_calls w') = shells (w_calls w) @ conf @ network_commands (s_shell env) no_route no_dns tun cfg @
        undo_commands (w_globals w)"
      using bridge_commands [OF b] undo_commands_settings [of "(w_globals w)\<lparr>g_network_bound := True\<rparr>" "w_globals w"] by simp
    then show ?thesis using q' bound
      by (intro exI [of _ tun] exI [of _ "conf @ network_commands (s_shell env) no_route no_dns tun cfg @ undo_commands (w_globals w)"])
        (simp add: session_commands_def f)
  qed
qed

lemma no_commands: "session_commands sh g no_route no_dns tun cfg []"
  by (simp add: session_commands_def split: prod.splits)

lemma driver_commands:
  assumes "driver_session env no_route no_dns ip gw nm usb drv w = Inr (r, w')"
  shows "\<exists>tun cfg cmds. shells (w_calls w') = shells (w_calls w) @ cmds \<and>
    session_commands (s_shell env) (w_globals w) no_route no_dns tun cfg cmds"
proof -
  have tunnel: "\<exists>tun cfg cmds. shells (w_calls w') = shells (w_calls w) @ cmds \<and>
      session_commands (s_shell env) (w_globals w) no_route no_dns tun cfg cmds"
    if "tunnel_session env no_route no_dns usb drv st mac cfg a (w\<lparr>w_dev := d\<rparr>) = Inr (r, w')" for st mac cfg a d
    using tunnel_commands [OF that] by auto
  from assms show ?thesis
    by (auto simp: driver_session_def bindR_eq_Inr Let_def no_commands intro!: exI [of _ "[]"]
        split: if_splits prod.splits option.splits dest!: tunnel)
qed



end
