(* ===== verification/Session_Switch.thy ===== *)
theory Session_Switch
  imports Session
begin

text \<open>
  The automatic connection as an abstract switch: clients turn it on and off by commands, and a
  session may only start while it is on.  This theory shows that one session follows the switch; the
  daemon is in \<open>Daemon\<close>.
\<close>

section \<open>The switch\<close>

definition flip :: "int \<Rightarrow> bool \<Rightarrow> bool" where
  "flip cmd on = (if cmd = IPC_CMD_ENABLE then True else if cmd = IPC_CMD_DISABLE then False else on)"

text \<open>The switch reads the log; it refuses a session that starts while it is off.\<close>

fun switch_run :: "bool \<Rightarrow> session_call list \<Rightarrow> bool option" where
  "switch_run on [] = Some on"
| "switch_run on (Polled cmd # cs) = switch_run (flip cmd on) cs"
| "switch_run on (Driver_New # cs) = (if on then switch_run on cs else None)"
| "switch_run on (Threads_Start # cs) = (if on then switch_run on cs else None)"
| "switch_run on (c # cs) = switch_run on cs"

lemma switch_append: "switch_run on (xs @ ys) = Option.bind (switch_run on xs) (\<lambda>on'. switch_run on' ys)"
  by (induction on xs rule: switch_run.induct) auto

definition still :: "session_call \<Rightarrow> bool" where
  "still c = (case c of Polled _ \<Rightarrow> False | Driver_New \<Rightarrow> False | Threads_Start \<Rightarrow> False | _ \<Rightarrow> True)"

lemma switch_still: "list_all still cs \<Longrightarrow> switch_run on cs = Some on"
  by (induction cs) (auto simp: still_def split: session_call.splits)

lemma still_maps [simp]:
  "list_all still (map Shell ss)" "list_all still (map Tun ts)" "list_all still (map Usb us)" "list_all still (map Ipc is)"
  "list_all still (tx_pool_alloc env)" "list_all still (tx_pool_free env)"
  by (auto simp: list_all_iff still_def tx_pool_alloc_def tx_pool_free_def)

lemma still_calls [simp]:
  "still Driver_Free" "still (Shell s)" "still (Delete s)" "still (Keepalive t)" "still Threads_Join" "still (Tx_Alloc i b)"
  by (simp_all add: still_def)

text \<open>The flag follows the switch from one state of the daemon to a later one.\<close>

definition tracks :: "'d world \<Rightarrow> 'd world \<Rightarrow> bool" where
  "tracks w w' \<longleftrightarrow> (\<exists>cs. w_calls w' = w_calls w @ cs \<and>
     switch_run (g_watch_enabled (w_globals w)) cs = Some (g_watch_enabled (w_globals w')))"

lemma tracks_trans: "tracks w w' \<Longrightarrow> tracks w' w'' \<Longrightarrow> tracks w w''"
  by (auto simp: tracks_def switch_append)

lemma tracks_still:
  assumes "w_calls w' = w_calls w @ cs" "list_all still cs" "g_watch_enabled (w_globals w') = g_watch_enabled (w_globals w)"
  shows "tracks w w'"
  unfolding tracks_def using assms(1,3) switch_still [OF assms(2)] by auto

lemma tracks_same:
  "w_calls w' = w_calls w \<Longrightarrow> g_watch_enabled (w_globals w') = g_watch_enabled (w_globals w) \<Longrightarrow> tracks w w'"
  by (rule tracks_still [of _ _ "[]"]) simp_all

lemma tracks_act: "list_all still cs \<Longrightarrow> tracks w (act cs w)"
  by (rule tracks_still) simp_all

lemma tracks_start:
  "g_watch_enabled (w_globals w) \<Longrightarrow> list_all still cs \<Longrightarrow> tracks w (act (cs @ [Threads_Start]) w)"
  "g_watch_enabled (w_globals w) \<Longrightarrow> list_all still cs \<Longrightarrow> tracks w (act (Driver_New # cs) w)"
  by (auto simp: tracks_def switch_append switch_still)

lemma tracks_send: "tracks w (send_state env state addr w)"
  by (simp add: send_state_def tracks_act)

lemma tracks_close: "tracks w (close_usb usb w)" "tracks w (close_tun tun w)"
  by (simp_all add: close_usb_def close_tun_def tracks_act)

lemma tracks_interrupted: "tracks w (interrupted sig w)"
  by (rule tracks_same) (simp_all add: interrupted_def signal_handler_def)

lemma tracks_restore: "tracks w (restore_net w)"
proof -
  obtain g cs where r: "restore_network_state (w_globals w) = (g, cs)" by fastforce
  then have "list_all still cs" by (auto simp: restore_network_state_def split: if_splits)
  with r only_restore(7) [OF r] show ?thesis
    by (intro tracks_still [of _ _ cs]) (simp_all add: restore_net_def)
qed

section \<open>The loop follows the switch\<close>

lemma command_tracks: "tracks (snd s) (snd (command_check k s))"
proof (cases s)
  case (Pair lp w)
  show ?thesis
  proof (cases "w_ipc w")
    case None
    then show ?thesis by (simp add: Pair command_check_def tracks_same)
  next
    case (Some srv)
    obtain srv' cmd calls where p: "ipc_server_poll (k_accepted k) (k_reads k) (w_ipc w) = (srv', cmd, calls)"
      by (metis prod_cases3)
    have "switch_run on (map Ipc calls @ [Polled cmd]) = Some (flip cmd on)" for on
      by (simp add: switch_append switch_still)
    moreover obtain lp' w' where "command_check k s = (lp', w')" by fastforce
    moreover from this have "w_calls w' = w_calls w @ map Ipc calls @ [Polled cmd]"
      "g_watch_enabled (w_globals w') = flip cmd (g_watch_enabled (w_globals w))"
      using p Some by (auto simp: Pair command_check_def poll_ipc_def session_command_def flip_def Let_def split: if_splits)
    ultimately show ?thesis by (auto simp: Pair tracks_def)
  qed
qed

lemma trigger_tracks: "tracks (snd s) (snd (trigger_check k s))"
  by (rule tracks_same) (auto simp: trigger_check_def poll_trigger_def stop_all_def Let_def split: prod.splits)

lemma ui_tracks: "tracks (snd s) (snd (ui_check k s))"
  by (rule tracks_same) (auto simp: ui_check_def stop_all_def split: prod.splits)

lemma count_tracks: "tracks (snd s) (snd (count_round env k s))"
proof -
  have "tracks w (publish_stats env k elapsed lp w)" for elapsed lp w
    unfolding publish_stats_def Let_def by (rule tracks_still [of _ _ "map Ipc _"]) auto
  then show ?thesis by (auto simp: count_round_def Let_def tracks_same split: prod.splits)
qed

lemma observe_tracks: "tracks (snd s) (snd (observe k s))"
  by (rule tracks_same) (auto simp: observe_def signal_handler_def split: prod.splits)

lemma stats_tracks: "tracks (snd s) (snd (stats_round env k s))"
proof -
  have "tracks (snd s) (snd (command_check k (trigger_check k (ui_check k (count_round env k s)))))"
    by (rule tracks_trans [OF count_tracks tracks_trans [OF ui_tracks tracks_trans [OF trigger_tracks command_tracks]]])
  then show ?thesis by (simp add: stats_round_def tracks_same)
qed

lemma keepalive_tracks: "keepalive_round env drv k (lp, w) = Inr (lp', w') \<Longrightarrow> tracks w w'"
  by (rule tracks_still [of _ _ "drop (length (w_calls w)) (w_calls w')"])
    (auto simp: keepalive_round_def bindR_eq_Inr split: if_splits option.splits)

lemma loop_tracks: "session_loop env drv ks (lp, w) = Inr (lp', w') \<Longrightarrow> tracks w w'"
proof (induction ks arbitrary: lp w)
  case (Cons k ks)
  obtain lp1 w1 where o: "observe k (lp, w) = (lp1, w1)" by fastforce
  then have q1: "tracks w w1" using observe_tracks [of "(lp, w)" k] by simp
  show ?case
  proof (cases "g_running (w_globals w1) \<and> lp_running lp1")
    case True
    with Cons.prems o obtain lp2 w2 where r: "keepalive_round env drv k (lp1, w1) = Inr (lp2, w2)"
      "session_loop env drv ks (stats_round env k (lp2, w2)) = Inr (lp', w')"
      by (auto simp: session_tick_def bindR_eq_Inr)
    obtain lp3 w3 where s: "stats_round env k (lp2, w2) = (lp3, w3)" by fastforce
    have "tracks w1 w2" "tracks w2 w3" using keepalive_tracks [OF r(1)] stats_tracks [of "(lp2, w2)" env k] s by auto
    moreover have "tracks w3 w'" using Cons.IH r(2) s by simp
    ultimately show ?thesis using q1 by (blast intro: tracks_trans)
  qed (use Cons.prems o q1 in auto)
qed simp

section \<open>A session follows the switch\<close>

lemma bridge_tracks:
  assumes "bridge_session env usb drv st device_mac tun cfg our_ip w = Inr (r, w')" "g_watch_enabled (w_globals w)"
  shows "tracks w w'"
proof -
  from assms(1) obtain d lp w1 where
    loop: "session_loop env drv (s_ticks env) (start_loop st, act (tx_pool_alloc env @ [Threads_Start])
      (send_state env ''connected'' (Some (n_ip cfg, ifname tun)) (w\<lparr>w_dev := d\<rparr>))) = Inr (lp, w1)"
    and w': "w' = interrupted (s_signal_after env) (close_usb usb (close_tun tun (restore_net
      (send_state env ''disconnected'' None (act ([Threads_Join] @ tx_pool_free env) w1)))))"
    by (auto simp: bridge_session_def bindR_eq_Inr Let_def)
  let ?w0 = "send_state env ''connected'' (Some (n_ip cfg, ifname tun)) (w\<lparr>w_dev := d\<rparr>)"
  have "tracks w ?w0" by (rule tracks_trans [OF tracks_same tracks_send]) simp_all
  moreover have "tracks ?w0 (act (tx_pool_alloc env @ [Threads_Start]) ?w0)"
    using assms(2) by (intro tracks_start) (simp_all add: send_state_def)
  moreover note loop_tracks [OF loop]
  moreover have "tracks w1 (act ([Threads_Join] @ tx_pool_free env) w1)" by (rule tracks_act) simp
  moreover have "tracks (act ([Threads_Join] @ tx_pool_free env) w1) w'"
    unfolding w' by (rule tracks_trans [OF tracks_send tracks_trans [OF tracks_restore
      tracks_trans [OF tracks_close(2) tracks_trans [OF tracks_close(1) tracks_interrupted]]]])
  ultimately show ?thesis by (blast intro: tracks_trans)
qed

lemma tracks_give_up: "give_up w = (r, w') \<Longrightarrow> tracks w w'"
  by (auto simp: give_up_def intro: tracks_same)

lemma tunnel_tracks:
  assumes "tunnel_session env no_route no_dns usb drv st device_mac cfg our_ip w = Inr (r, w')" "g_watch_enabled (w_globals w)"
  shows "tracks w w'"
proof -
  obtain q tun log where c: "utun_create (s_socket env) (s_info env) (s_connects env) (s_flags env) = (q, tun, log)"
    by (metis prod_cases3)
  obtain q' conf where f: "utun_configure (s_shell env) tun (n_ip cfg) (n_gateway cfg) (n_netmask cfg) = (q', conf)"
    by fastforce
  let ?w1 = "act (map Tun log) w"
  let ?w2 = "act (map Shell conf) ?w1"
  let ?w4 = "(act (map Shell (network_commands (s_shell env) no_route no_dns tun cfg)) ?w2)
    \<lparr>w_globals := (w_globals w)\<lparr>g_network_bound := True\<rparr>\<rparr>"
  have w: "tracks w ?w1" "tracks ?w1 ?w2" "tracks ?w2 ?w4" "g_watch_enabled (w_globals ?w4)"
    using assms(2) by (auto intro!: tracks_act tracks_still)
  consider (created) "q < 0" | (configured) "q \<ge> 0" "q' < 0" | (bound) "q \<ge> 0" "q' \<ge> 0" by linarith
  then show ?thesis
  proof cases
    case created
    with assms(1) c have "give_up (close_usb usb ?w1) = (r, w')" by (simp add: tunnel_session_def)
    then show ?thesis by (rule tracks_trans [OF w(1) tracks_trans [OF tracks_close(1) tracks_give_up]])
  next
    case configured
    with assms(1) c f have "give_up (close_usb usb (close_tun tun ?w2)) = (r, w')" by (simp add: tunnel_session_def)
    from tracks_trans [OF tracks_close(2) tracks_trans [OF tracks_close(1) tracks_give_up [OF this]]]
    show ?thesis by (rule tracks_trans [OF tracks_trans [OF w(1,2)]])
  next
    case bound
    then have "bridge_session env usb drv st device_mac tun cfg our_ip ?w4 = Inr (r, w')"
      using assms(1) c f by (simp add: tunnel_session_def Let_def)
    from bridge_tracks [OF this w(4)] show ?thesis by (rule tracks_trans [OF tracks_trans [OF w(1) tracks_trans [OF w(2,3)]]])
  qed
qed

lemma driver_tracks:
  assumes "driver_session env no_route no_dns ip gw nm usb drv w = Inr (r, w')" "g_watch_enabled (w_globals w)"
  shows "tracks w w'"
proof -
  have dev: "tracks w (w\<lparr>w_dev := d\<rparr>)" for d by (rule tracks_same) simp_all
  have close: "give_up (close_usb usb (w\<lparr>w_dev := d\<rparr>)) = (r, w') \<Longrightarrow> tracks w w'" for d
    by (rule tracks_trans [OF dev tracks_trans [OF tracks_close(1) tracks_give_up]])
  have tunnel: "tunnel_session env no_route no_dns usb drv st mac cfg a (w\<lparr>w_dev := d\<rparr>) = Inr (r, w') \<Longrightarrow> tracks w w'"
    for st mac cfg a d
    using tunnel_tracks [of env no_route no_dns usb drv st mac cfg a "w\<lparr>w_dev := d\<rparr>" r w'] assms(2)
    by (simp add: tracks_def)
  from assms(1) show ?thesis
    by (auto simp: driver_session_def bindR_eq_Inr Let_def close split: if_splits prod.splits option.splits
        dest!: tunnel)
qed

lemma session_tracks:
  assumes "run_session env no_route no_dns ip gw nm w = Inr (r, w')" "g_watch_enabled (w_globals w)"
  shows "tracks w w'"
proof -
  let ?w = "interrupted (s_signal_before env) w"
  obtain found usb log where u: "usb_find_rndis_device (s_usb_init env) (s_usb_list env) = (found, usb, log)"
    by (metis prod_cases3)
  have on: "g_watch_enabled (w_globals ?w)" using assms(2) by (simp add: interrupted_def signal_handler_def)
  have start: "tracks ?w (act (Driver_New # cs) ?w)" if "list_all still cs" for cs
    using tracks_start(2) [OF on that] .
  have "tracks ?w w'"
  proof (cases "proto_rndis_create (s_drv_mem env) (s_state_mem env) (s_lib env) usb :: ('a, unit) proto_driver option")
    case None
    with assms(1) u have "give_up ?w = (r, w')" by (simp add: run_session_def Let_def)
    then show ?thesis by (rule tracks_give_up)
  next
    case (Some drv)
    let ?w1 = "act (Driver_New # map Usb log) ?w"
    consider "give_up (act [Driver_New, Driver_Free] ?w) = (r, w')" | "give_up (act [Driver_Free] ?w1) = (r, w')"
      | "driver_session env no_route no_dns ip gw nm usb drv ?w1 = Inr (r, w')"
      using assms(1) u Some by (auto simp: run_session_def Let_def split: if_splits)
    then show ?thesis
    proof cases
      case 1
      from start [of "[Driver_Free]"] tracks_give_up [OF 1] show ?thesis by (simp add: tracks_trans)
    next
      case 2
      have "tracks ?w1 (act [Driver_Free] ?w1)" by (rule tracks_act) simp
      with start [of "map Usb log"] tracks_give_up [OF 2] show ?thesis by (simp add: tracks_trans)
    next
      case 3
      have "tracks ?w1 w'" using driver_tracks [OF 3] on by simp
      with start [of "map Usb log"] show ?thesis by (simp add: tracks_trans)
    qed
  qed
  with tracks_interrupted show ?thesis by (rule tracks_trans)
qed

end
