(* ===== verification/Log.thy ===== *)
theory Log
  imports Tether_Prelude
begin

text \<open>
  \<^verbatim>\<open>src/log.c\<close>: the level threshold and the lines on the error output.  The time stamp and the text
  that \<^verbatim>\<open>printf\<close> makes of the format and its arguments are arguments of the model.
\<close>

datatype log_level = LOG_LEVEL_DEBUG | LOG_LEVEL_INFO | LOG_LEVEL_WARN | LOG_LEVEL_ERROR

fun level_num :: "log_level \<Rightarrow> nat" where
  "level_num LOG_LEVEL_DEBUG = 0"
| "level_num LOG_LEVEL_INFO = 1"
| "level_num LOG_LEVEL_WARN = 2"
| "level_num LOG_LEVEL_ERROR = 3"

lemma level_num_inject: "level_num a = level_num b \<longleftrightarrow> a = b"
  by (cases a; cases b) simp_all

text \<open>The levels are ordered as their enumeration values.\<close>

instantiation log_level :: linorder
begin

definition less_eq_log_level :: "log_level \<Rightarrow> log_level \<Rightarrow> bool" where
  "less_eq_log_level a b = (level_num a \<le> level_num b)"

definition less_log_level :: "log_level \<Rightarrow> log_level \<Rightarrow> bool" where
  "less_log_level a b = (level_num a < level_num b)"

instance
  by standard (auto simp: less_eq_log_level_def less_log_level_def level_num_inject)

end

definition level_name :: "log_level \<Rightarrow> string" where
  "level_name l = [''DEBUG'', ''INFO'', ''WARN'', ''ERROR''] ! level_num l"

text \<open>\<open>g_log_level\<close> is the state; \<open>log_init\<close> sets it and \<open>log_get_level\<close> reads it.\<close>

definition log_init :: "log_level \<Rightarrow> log_level \<Rightarrow> log_level" where
  "log_init level g_log_level = level"

definition log_get_level :: "log_level \<Rightarrow> log_level" where
  "log_get_level g_log_level = g_log_level"

definition log_msg :: "log_level \<Rightarrow> log_level \<Rightarrow> string \<Rightarrow> string \<Rightarrow> string \<Rightarrow> string \<Rightarrow> string" where
  "log_msg g_log_level level stamp tag fmt text =
     (if level < g_log_level then []
      else stamp @ '' ['' @ level_name level @ ''] ['' @ tag @ ''] '' @ text @
           (if length fmt = 0 \<or> fmt ! (length fmt - 1) \<noteq> CHR 0x0A then [CHR 0x0A] else []))"

text \<open>\<open>log_signal_safe\<close> writes the text up to its null character; a null pointer is nothing.\<close>

definition log_signal_safe :: "string option \<Rightarrow> string" where
  "log_signal_safe msg = (case msg of None \<Rightarrow> [] | Some m \<Rightarrow> c_string m)"

text \<open>
  A message is written exactly where its level reaches the threshold, and raising the threshold
  only removes messages; what is written for a format without a newline at its end is one line more
  than the text has.
\<close>

theorem log_threshold:
  "(log_msg (log_init threshold old) level stamp tag fmt text \<noteq> [] \<longleftrightarrow> threshold \<le> level) \<and>
   (log_msg threshold level stamp tag fmt text = [] \<longrightarrow> threshold \<le> higher \<longrightarrow>
      log_msg higher level stamp tag fmt text = []) \<and>
   (threshold \<le> level \<longrightarrow> fmt = text \<longrightarrow> last (log_msg threshold level stamp tag fmt text) = CHR 0x0A)"
proof -
  have "last (log_msg threshold level stamp tag text text) = CHR 0x0A" if "threshold \<le> level"
    using that last_conv_nth [of "text"] by (cases "text = []") (auto simp: log_msg_def last_append)
  moreover have "threshold \<le> level" if "\<not> level < threshold" using that by simp
  ultimately show ?thesis by (auto simp: log_msg_def log_init_def)
qed

lemma log_threshold_witness:
  "last (log_msg LOG_LEVEL_INFO LOG_LEVEL_ERROR ''2025'' ''usb'' ''no device'' ''no device'') = CHR 0x0A"
  using log_threshold [of LOG_LEVEL_INFO LOG_LEVEL_DEBUG LOG_LEVEL_ERROR "''2025''" "''usb''" "''no device''"
      "''no device''"]
  by (auto simp: less_eq_log_level_def)

end
