(* ===== verification/Config.thy ===== *)
theory Config
  imports Net_Types Log C_Text
begin

text \<open>
  \<^verbatim>\<open>src/config.c\<close>: the configuration record, the INI file reader and the command line.  A file system
  is a map from paths to contents.  Lines are cut by \<open>fgets\<close> at 255 characters, values by \<open>strlcpy\<close>
  at the size of their array.  \<open>getopt_long\<close> is modelled for the option table of the program.
\<close>

section \<open>Data\<close>

record tether_config =
  no_route :: bool
  no_dns :: bool
  static_ip :: string
  gateway :: string
  netmask :: string
  cfg_log_level :: log_level
  verbose :: bool
  protocol :: string
  ui_pid :: int
  watch_mode :: bool

definition config_init_defaults :: tether_config where
  "config_init_defaults = \<lparr>no_route = False, no_dns = False, static_ip = [], gateway = [],
     netmask = strlcpy 16 DEFAULT_NETMASK, cfg_log_level = LOG_LEVEL_INFO, verbose = False,
     protocol = strlcpy 16 ''rndis'', ui_pid = 0, watch_mode = False\<rparr>"

text \<open>\<open>HOME\<close>, otherwise the home directory of the user, where there is one.\<close>

definition config_default_path :: "string option \<Rightarrow> string option \<Rightarrow> string option" where
  "config_default_path home pw_dir =
     map_option (\<lambda>h. snprintf 512 (h @ ''/.config/android-tether/config''))
       (case home of Some h \<Rightarrow> Some h | None \<Rightarrow> pw_dir)"

section \<open>Lexical helpers\<close>

text \<open>The second loop of \<open>strip\<close> stops at the first character of the stripped string.\<close>

definition strip_end :: "string \<Rightarrow> string" where
  "strip_end s = (case s of [] \<Rightarrow> [] | c # cs \<Rightarrow> c # rev (dropWhile isspace (rev cs)))"

definition strip :: "string \<Rightarrow> string" where
  "strip s = strip_end (dropWhile isspace s)"

definition to_lower :: "char \<Rightarrow> char" where
  "to_lower c = (case map_of (zip ''ABCDEFGHIJKLMNOPQRSTUVWXYZ'' ''abcdefghijklmnopqrstuvwxyz'') c of
     Some d \<Rightarrow> d | None \<Rightarrow> c)"

definition equal_ignoring_case :: "string \<Rightarrow> string \<Rightarrow> bool" where
  "equal_ignoring_case a b = (map to_lower a = map to_lower b)"

definition parse_bool :: "string \<Rightarrow> bool" where
  "parse_bool v = (equal_ignoring_case v ''true'' \<or> equal_ignoring_case v ''yes'' \<or>
     equal_ignoring_case v ''1'' \<or> equal_ignoring_case v ''on'')"

definition parse_log_level :: "string \<Rightarrow> log_level" where
  "parse_log_level v =
     (if equal_ignoring_case v ''debug'' then LOG_LEVEL_DEBUG
      else if equal_ignoring_case v ''info'' then LOG_LEVEL_INFO
      else if equal_ignoring_case v ''warn'' \<or> equal_ignoring_case v ''warning'' then LOG_LEVEL_WARN
      else if equal_ignoring_case v ''error'' then LOG_LEVEL_ERROR
      else LOG_LEVEL_INFO)"

text \<open>\<open>strchr\<close>: the text before and after the first \<open>c\<close>.\<close>

definition split_at :: "char \<Rightarrow> string \<Rightarrow> (string \<times> string) option" where
  "split_at c s = (if c \<in> set s
     then Some (takeWhile (\<lambda>x. x \<noteq> c) s, tl (dropWhile (\<lambda>x. x \<noteq> c) s)) else None)"

text \<open>\<open>fgets\<close> with room for \<open>n\<close> characters: up to and with the next newline.\<close>

fun fgets :: "nat \<Rightarrow> string \<Rightarrow> string \<times> string" where
  "fgets 0 s = ([], s)"
| "fgets (Suc n) [] = ([], [])"
| "fgets (Suc n) (c # cs) =
     (if c = CHR 0x0A then ([c], cs) else let (l, r) = fgets n cs in (c # l, r))"

lemma fgets_shorter: "fgets n s = (l, r) \<Longrightarrow> length l + length r = length s \<and> (0 < n \<and> s \<noteq> [] \<longrightarrow> l \<noteq> [])"
  by (induction n s arbitrary: l r rule: fgets.induct) (auto split: if_splits prod.splits)

lemma fgets_decreases: "s \<noteq> [] \<Longrightarrow> length (snd (fgets 255 s)) < length s"
  using fgets_shorter [of 255 s] by (cases "fgets 255 s"; cases "fst (fgets 255 s)") auto

function lines_of :: "string \<Rightarrow> string list" where
  "lines_of s = (if s = [] then [] else let (l, r) = fgets 255 s in l # lines_of r)"
  by pat_completeness auto
termination
  by (relation "measure length") (simp_all, metis fgets_decreases snd_conv)

declare lines_of.simps [simp del]

section \<open>The configuration file\<close>

definition set_key :: "string \<Rightarrow> string \<Rightarrow> string \<Rightarrow> tether_config \<Rightarrow> tether_config" where
  "set_key section key val cfg =
     (if section = ''network'' then
        if key = ''no_route'' then cfg\<lparr>no_route := parse_bool val\<rparr>
        else if key = ''no_dns'' then cfg\<lparr>no_dns := parse_bool val\<rparr>
        else if key = ''static_ip'' \<and> val \<noteq> [] then cfg\<lparr>static_ip := strlcpy 16 val\<rparr>
        else if key = ''gateway'' \<and> val \<noteq> [] then cfg\<lparr>gateway := strlcpy 16 val\<rparr>
        else if key = ''netmask'' \<and> val \<noteq> [] then cfg\<lparr>netmask := strlcpy 16 val\<rparr>
        else cfg
      else if section = ''logging'' then
        if key = ''level'' then cfg\<lparr>cfg_log_level := parse_log_level val\<rparr> else cfg
      else if section = ''protocol'' then
        if key = ''driver'' \<and> val \<noteq> [] then cfg\<lparr>protocol := strlcpy 16 val\<rparr> else cfg
      else cfg)"

text \<open>One round of the loop: the state is the current section and the configuration.\<close>

definition config_line :: "string \<Rightarrow> string \<times> tether_config \<Rightarrow> string \<times> tether_config" where
  "config_line line = (\<lambda>(section, cfg).
     let s = strip (c_string line)
     in if s = [] \<or> hd s = CHR ''#'' \<or> hd s = CHR '';'' then (section, cfg)
        else if hd s = CHR ''['' then
          (case split_at (CHR '']'') s of
             Some (name, _) \<Rightarrow> (strlcpy 32 (tl name), cfg)
           | None \<Rightarrow> (section, cfg))
        else case split_at (CHR ''='') s of
               None \<Rightarrow> (section, cfg)
             | Some (k, v) \<Rightarrow> (section, set_key section (strip k) (strip v) cfg))"

definition load_text :: "string \<Rightarrow> tether_config \<Rightarrow> tether_config" where
  "load_text text cfg = snd (fold config_line (lines_of text) ([], cfg))"

definition config_load_file :: "(string \<rightharpoonup> string) \<Rightarrow> tether_config \<Rightarrow> string \<Rightarrow> int \<times> tether_config" where
  "config_load_file fs cfg path =
     (case fs path of None \<Rightarrow> (-1, cfg) | Some text \<Rightarrow> (0, load_text text cfg))"

definition config_load_default ::
    "(string \<rightharpoonup> string) \<Rightarrow> string option \<Rightarrow> string option \<Rightarrow> tether_config \<Rightarrow> int \<times> tether_config" where
  "config_load_default fs home pw_dir cfg =
     (case config_default_path home pw_dir of None \<Rightarrow> (-1, cfg) | Some path \<Rightarrow> config_load_file fs cfg path)"

section \<open>The command line\<close>

datatype arg_kind = no_argument | required_argument

definition long_opts :: "(string \<times> arg_kind \<times> char) list" where
  "long_opts =
     [(''no-route'', no_argument, CHR ''n''), (''no-dns'', no_argument, CHR ''d''),
      (''static'', required_argument, CHR ''s''), (''gateway'', required_argument, CHR ''g''),
      (''netmask'', required_argument, CHR ''m''), (''verbose'', no_argument, CHR ''v''),
      (''help'', no_argument, CHR ''h''), (''ui-pid'', required_argument, CHR ''p''),
      (''version'', no_argument, CHR ''V''), (''config'', required_argument, CHR ''c''),
      (''watch'', no_argument, CHR ''w'')]"

text \<open>\<^verbatim>\<open>"nds:g:m:vhp:Vc:w"\<close>\<close>

definition short_opts :: "(char \<times> arg_kind) list" where
  "short_opts =
     [(CHR ''n'', no_argument), (CHR ''d'', no_argument), (CHR ''s'', required_argument),
      (CHR ''g'', required_argument), (CHR ''m'', required_argument), (CHR ''v'', no_argument),
      (CHR ''h'', no_argument), (CHR ''p'', required_argument), (CHR ''V'', no_argument),
      (CHR ''c'', required_argument), (CHR ''w'', no_argument)]"

text \<open>
  What \<open>getopt_long\<close> returns, one pair of option character and argument per call; the character
  \<open>?\<close> stands for every error.
\<close>

type_synonym opt_event = "char \<times> string"

definition bad_option :: opt_event where "bad_option = (CHR ''?'', [])"

fun short_cluster :: "string \<Rightarrow> string list \<Rightarrow> opt_event list \<times> string list" where
  "short_cluster [] rest = ([], rest)"
| "short_cluster (c # cs) rest =
     (case map_of short_opts c of
        None \<Rightarrow> ([bad_option], [])
      | Some no_argument \<Rightarrow> let (es, r) = short_cluster cs rest in ((c, []) # es, r)
      | Some required_argument \<Rightarrow>
          if cs \<noteq> [] then ([(c, cs)], rest)
          else (case rest of [] \<Rightarrow> ([bad_option], []) | a # r \<Rightarrow> ([(c, a)], r)))"

text \<open>A long name is matched exactly, otherwise as a prefix of one name only.\<close>

definition find_long :: "string \<Rightarrow> (string \<times> arg_kind \<times> char) option" where
  "find_long name =
     (case filter (\<lambda>(n, _). n = name) long_opts of
        [opt] \<Rightarrow> Some opt
      | _ \<Rightarrow> (case filter (\<lambda>(n, _). take (length name) n = name) long_opts of [opt] \<Rightarrow> Some opt | _ \<Rightarrow> None))"

definition long_option :: "string \<Rightarrow> string list \<Rightarrow> opt_event list \<times> string list" where
  "long_option text rest =
     (let (name, val) = (case split_at (CHR ''='') text of None \<Rightarrow> (text, None) | Some (n, v) \<Rightarrow> (n, Some v))
      in case find_long name of
           None \<Rightarrow> ([bad_option], [])
         | Some (_, no_argument, c) \<Rightarrow> if val = None then ([(c, [])], rest) else ([bad_option], [])
         | Some (_, required_argument, c) \<Rightarrow>
             (case val of
                Some v \<Rightarrow> ([(c, v)], rest)
              | None \<Rightarrow> (case rest of [] \<Rightarrow> ([bad_option], []) | a # r \<Rightarrow> ([(c, a)], r))))"

definition next_option :: "string \<Rightarrow> string list \<Rightarrow> opt_event list \<times> string list" where
  "next_option a rest =
     (if take 2 a = ''--'' then long_option (drop 2 a) rest
      else if a \<noteq> [] \<and> hd a = CHR ''-'' \<and> tl a \<noteq> [] then short_cluster (tl a) rest
      else ([], rest))"

lemma short_cluster_rest: "short_cluster cs rest = (es, r) \<Longrightarrow> length r \<le> length rest"
  by (induction cs rest arbitrary: es r rule: short_cluster.induct)
    (auto split: option.splits arg_kind.splits if_splits list.splits prod.splits)

lemma next_option_rest: "length (snd (next_option a rest)) \<le> length rest"
proof (cases "next_option a rest")
  case (Pair es r)
  then show ?thesis
    by (auto simp: next_option_def long_option_def split: option.splits arg_kind.splits if_splits list.splits prod.splits
        dest: short_cluster_rest)
qed

text \<open>Arguments that are no options are skipped, and \<open>--\<close> ends the options.\<close>

function getopt_events :: "string list \<Rightarrow> opt_event list" where
  "getopt_events [] = []"
| "getopt_events (a # rest) =
     (if a = ''--'' then [] else fst (next_option a rest) @ getopt_events (snd (next_option a rest)))"
  by pat_completeness auto
termination
  by (relation "measure length") (auto simp: less_Suc_eq_le next_option_rest)

datatype cli_result = Cli_Return int | Cli_Exit

text \<open>One round of the loop: \<open>None\<close> goes on with the next option.\<close>

definition cli_option ::
    "(string \<rightharpoonup> string) \<Rightarrow> char \<Rightarrow> string \<Rightarrow> tether_config \<Rightarrow> cli_result option \<times> tether_config" where
  "cli_option fs c optarg cfg =
     (if c = CHR ''n'' then (None, cfg\<lparr>no_route := True\<rparr>)
      else if c = CHR ''d'' then (None, cfg\<lparr>no_dns := True\<rparr>)
      else if c = CHR ''s'' then (None, cfg\<lparr>static_ip := strlcpy 16 optarg\<rparr>)
      else if c = CHR ''g'' then (None, cfg\<lparr>gateway := strlcpy 16 optarg\<rparr>)
      else if c = CHR ''m'' then (None, cfg\<lparr>netmask := strlcpy 16 optarg\<rparr>)
      else if c = CHR ''v'' then (None, cfg\<lparr>verbose := True, cfg_log_level := LOG_LEVEL_DEBUG\<rparr>)
      else if c = CHR ''p'' then
        (case strtol optarg of
           None \<Rightarrow> (Some (Cli_Return (-1)), cfg)
         | Some (val, endp) \<Rightarrow>
             if endp \<noteq> [] \<or> val \<le> 0 then (Some (Cli_Return (-1)), cfg)
             else (None, cfg\<lparr>ui_pid := to_int val\<rparr>))
      else if c = CHR ''c'' then
        (let (r, cfg') = config_load_file fs cfg optarg
         in if r < 0 then (Some (Cli_Return (-1)), cfg') else (None, cfg'))
      else if c = CHR ''V'' then (Some Cli_Exit, cfg)
      else if c = CHR ''w'' then (None, cfg\<lparr>watch_mode := True\<rparr>)
      else if c = CHR ''h'' then (Some (Cli_Return 1), cfg)
      else (Some (Cli_Return (-1)), cfg))"

fun apply_events ::
    "(string \<rightharpoonup> string) \<Rightarrow> opt_event list \<Rightarrow> tether_config \<Rightarrow> cli_result \<times> tether_config" where
  "apply_events fs [] cfg = (Cli_Return 0, cfg)"
| "apply_events fs ((c, optarg) # es) cfg =
     (case cli_option fs c optarg cfg of
        (Some r, cfg') \<Rightarrow> (r, cfg')
      | (None, cfg') \<Rightarrow> apply_events fs es cfg')"

text \<open>\<open>args\<close> is \<open>argv\<close> without the program's name.\<close>

definition config_apply_cli ::
    "(string \<rightharpoonup> string) \<Rightarrow> tether_config \<Rightarrow> string list \<Rightarrow> cli_result \<times> tether_config" where
  "config_apply_cli fs cfg args = apply_events fs (getopt_events args) cfg"

section \<open>Lemmas\<close>

text \<open>Every string fits its array with the null character.\<close>

definition wf_config :: "tether_config \<Rightarrow> bool" where
  "wf_config cfg \<longleftrightarrow> length (static_ip cfg) < 16 \<and> length (gateway cfg) < 16 \<and> length (netmask cfg) < 16 \<and>
     length (protocol cfg) < 16"

lemma length_strlcpy_16 [simp]: "length (strlcpy 16 s) < 16"
  by (rule length_strlcpy) simp

lemma wf_set_key: "wf_config cfg \<Longrightarrow> wf_config (set_key section key val cfg)"
  by (simp add: wf_config_def set_key_def)

lemma wf_config_line: "wf_config cfg \<Longrightarrow> wf_config (snd (config_line line (section, cfg)))"
  by (auto simp: config_line_def Let_def wf_set_key split: option.splits)

lemma wf_fold_lines: "wf_config (snd st) \<Longrightarrow> wf_config (snd (fold config_line ls st))"
proof (induction ls arbitrary: st)
  case (Cons l ls)
  then show ?case using wf_config_line [of "snd st" l "fst st"] by simp
qed simp

lemma wf_load_file: "wf_config cfg \<Longrightarrow> wf_config (snd (config_load_file fs cfg path))"
  by (auto simp: config_load_file_def load_text_def wf_fold_lines split: option.splits)

lemma wf_cli_option: "wf_config cfg \<Longrightarrow> wf_config (snd (cli_option fs c optarg cfg))"
  using wf_load_file [of cfg fs optarg]
  by (cases "config_load_file fs cfg optarg")
    (simp add: cli_option_def wf_config_def split: option.split prod.split)

lemma wf_apply_events: "wf_config cfg \<Longrightarrow> wf_config (snd (apply_events fs es cfg))"
proof (induction es arbitrary: cfg)
  case (Cons e es)
  obtain c optarg where e: "e = (c, optarg)" by (cases e)
  obtain r cfg' where o: "cli_option fs c optarg cfg = (r, cfg')" by fastforce
  then have "wf_config cfg'" using wf_cli_option [OF Cons.prems, of fs c optarg] by simp
  then show ?case using Cons.IH e o by (cases r) simp_all
qed simp

lemma dropWhile_all: "list_all P a \<Longrightarrow> dropWhile P (a @ b) = dropWhile P b"
  by (induction a) auto

lemma strip_padded:
  assumes "list_all isspace a" "list_all isspace b" "w \<noteq> [] \<Longrightarrow> \<not> isspace (hd w) \<and> \<not> isspace (last w)"
  shows "strip (a @ w @ b) = w"
proof (cases w)
  case Nil
  have "dropWhile isspace (a @ w @ b) = []" using assms(1,2) Nil by (simp add: list_all_iff)
  then show ?thesis using Nil by (simp only: strip_def strip_end_def list.case)
next
  case (Cons c cs)
  then have "dropWhile isspace (a @ w @ b) = c # (cs @ b)" using assms by (simp add: dropWhile_all)
  moreover have "dropWhile isspace (rev (cs @ b)) = rev cs"
  proof -
    have "dropWhile isspace (rev b @ rev cs) = dropWhile isspace (rev cs)"
      using assms(2) by (intro dropWhile_all) (simp add: list_all_iff)
    moreover have "dropWhile isspace (rev cs) = rev cs"
      using assms(3) Cons by (cases cs rule: rev_cases) auto
    ultimately show ?thesis by simp
  qed
  ultimately show ?thesis using Cons by (simp add: strip_def strip_end_def)
qed

definition plain :: "string \<Rightarrow> bool" where
  "plain v \<longleftrightarrow> list_all (\<lambda>c. \<not> isspace c \<and> c \<noteq> CHR 0x00) v"

lemma plain_ends: "plain v \<Longrightarrow> v \<noteq> [] \<Longrightarrow> \<not> isspace (hd v) \<and> \<not> isspace (last v)"
  by (auto simp: plain_def list_all_iff)

lemma fgets_line:
  "CHR 0x0A \<notin> set l \<Longrightarrow> length l < n \<Longrightarrow> fgets n (l @ CHR 0x0A # rest) = (l @ [CHR 0x0A], rest)"
proof (induction l arbitrary: n)
  case Nil
  then show ?case by (cases n) auto
next
  case (Cons c l)
  then show ?case by (cases n) auto
qed

lemma lines_of_line:
  "CHR 0x0A \<notin> set l \<Longrightarrow> length l < 255 \<Longrightarrow> lines_of (l @ CHR 0x0A # rest) = (l @ [CHR 0x0A]) # lines_of rest"
  by (simp add: lines_of.simps [of "l @ CHR 0x0A # rest"] fgets_line)

lemma lines_of_Nil [simp]: "lines_of [] = []"
  by (simp add: lines_of.simps)

lemma lines_of_lines:
  "\<forall>l \<in> set ls. CHR 0x0A \<notin> set l \<and> length l < 255 \<Longrightarrow>
     lines_of (concat (map (\<lambda>l. l @ [CHR 0x0A]) ls)) = map (\<lambda>l. l @ [CHR 0x0A]) ls"
  by (induction ls) (simp_all add: lines_of_line)

lemma takeWhile_all_append: "\<forall>c \<in> set l. P c \<Longrightarrow> takeWhile P (l @ r) = l @ takeWhile P r"
  by (induction l) auto

lemma key_line:
  assumes "plain k" "k \<noteq> []" "CHR ''='' \<notin> set k" "hd k \<notin> {CHR ''#'', CHR '';'', CHR ''[''}" "plain v"
  shows "config_line ((k @ '' = '' @ v) @ [CHR 0x0A]) (section, cfg) = (section, set_key section k v cfg)"
proof -
  let ?line = "(k @ '' = '' @ v) @ [CHR 0x0A]"
  have nul: "c_string ?line = ?line"
    using assms(1,5) by (auto simp: c_string_def plain_def list_all_iff takeWhile_eq_all_conv)
  have sp: "isspace (CHR '' '')" "isspace (CHR 0x0A)" "\<not> isspace (CHR ''='')" by (simp_all add: isspace_def)
  have strip_k: "strip (k @ '' '') = k"
    using strip_padded [of "[]" "'' ''" k] plain_ends [OF assms(1)] sp by simp
  have strip_v: "strip ('' '' @ v) = v"
    using strip_padded [of "'' ''" "[]" v] plain_ends [OF assms(5)] sp by simp
  show ?thesis
  proof (cases "v = []")
    case True
    have s: "strip ?line = k @ '' =''"
      using strip_padded [of "[]" "'' '' @ [CHR 0x0A]" "k @ '' =''"] plain_ends [OF assms(1,2)] assms(2) sp True
      by simp
    have "split_at (CHR ''='') (k @ '' ='') = Some (k @ '' '', [])"
      using assms(3) by (auto simp: split_at_def takeWhile_all_append dropWhile_append)
    moreover have "strip [] = []" by (simp add: strip_def strip_end_def)
    ultimately show ?thesis
      unfolding config_line_def prod.case nul s Let_def using assms(2,4) strip_k True by simp
  next
    case False
    have s: "strip ?line = k @ '' = '' @ v"
      using strip_padded [of "[]" "[CHR 0x0A]" "k @ '' = '' @ v"] plain_ends [OF assms(1,2)]
        plain_ends [OF assms(5) False] assms(2) sp False by simp
    have "split_at (CHR ''='') (k @ '' = '' @ v) = Some (k @ '' '', '' '' @ v)"
      using assms(3) by (auto simp: split_at_def takeWhile_all_append dropWhile_append)
    then show ?thesis
      unfolding config_line_def prod.case nul s Let_def using assms(2,4) strip_k strip_v by simp
  qed
qed

section \<open>Properties\<close>

text \<open>
  C36: No string of the configuration overflows its array: whatever the default file, the files named
  on the command line and the arguments contain, the four strings stay within 15 characters.
\<close>

theorem config_strings_fit:
  assumes "config_load_default fs home pw_dir config_init_defaults = (r, cfg)"
    and "config_apply_cli fs cfg args = (result, cfg')"
  shows "length (static_ip cfg') < 16 \<and> length (gateway cfg') < 16 \<and> length (netmask cfg') < 16 \<and>
    length (protocol cfg') < 16"
proof -
  have "wf_config config_init_defaults" by (simp add: wf_config_def config_init_defaults_def)
  then have "wf_config cfg"
    using assms(1) wf_load_file [of config_init_defaults fs]
    by (auto simp: config_load_default_def split: option.splits) (metis snd_conv)
  then show ?thesis
    using assms(2) wf_apply_events [of cfg fs "getopt_events args"]
    by (simp_all add: config_apply_cli_def wf_config_def)
qed

lemma config_strings_fit_witness:
  "length (static_ip (snd (config_apply_cli Map.empty config_init_defaults [replicate 3 CHR ''-'', replicate 40 CHR ''1'']))) < 16"
  using config_strings_fit [of Map.empty None None, OF _ prod.collapse [symmetric]]
  by (simp add: config_load_default_def config_default_path_def)

text \<open>The file that describes a configuration, with the keys of the reader.\<close>

definition bool_text :: "bool \<Rightarrow> string" where
  "bool_text b = (if b then ''true'' else ''false'')"

definition level_text :: "log_level \<Rightarrow> string" where
  "level_text l = [''debug'', ''info'', ''warn'', ''error''] ! level_num l"

definition config_lines :: "tether_config \<Rightarrow> string list" where
  "config_lines cfg =
     [''[network]'', ''no_route = '' @ bool_text (no_route cfg), ''no_dns = '' @ bool_text (no_dns cfg),
      ''static_ip = '' @ static_ip cfg, ''gateway = '' @ gateway cfg, ''netmask = '' @ netmask cfg,
      ''[logging]'', ''level = '' @ level_text (cfg_log_level cfg),
      ''[protocol]'', ''driver = '' @ protocol cfg]"

definition config_text :: "tether_config \<Rightarrow> string" where
  "config_text cfg = concat (map (\<lambda>l. l @ [CHR 0x0A]) (config_lines cfg))"

definition or_else :: "string \<Rightarrow> string \<Rightarrow> string" where
  "or_else a b = (if a = [] then b else a)"

lemma section_line:
  assumes "name \<in> {''network'', ''logging'', ''protocol''}"
  shows "config_line ((''['' @ name @ '']'') @ [CHR 0x0A]) (section, cfg) = (name, cfg)"
  using assms
  by (auto simp: config_line_def c_string_def strip_def strip_end_def isspace_def split_at_def strlcpy_def)

lemma parse_bool_printed [simp]: "parse_bool (bool_text b) = b"
proof -
  have "parse_bool (bool_text True)" "\<not> parse_bool (bool_text False)" by code_simp+
  then show ?thesis by (cases b) auto
qed

lemma parse_level_printed [simp]: "parse_log_level (level_text l) = l"
proof -
  have "parse_log_level (level_text LOG_LEVEL_DEBUG) = LOG_LEVEL_DEBUG"
    "parse_log_level (level_text LOG_LEVEL_INFO) = LOG_LEVEL_INFO"
    "parse_log_level (level_text LOG_LEVEL_WARN) = LOG_LEVEL_WARN"
    "parse_log_level (level_text LOG_LEVEL_ERROR) = LOG_LEVEL_ERROR" by code_simp+
  then show ?thesis by (cases l) auto
qed

lemma plain_printed [simp]: "plain (bool_text b)" "plain (level_text l)"
  by (cases b; simp add: bool_text_def plain_def isspace_def)
    (cases l; simp add: level_text_def plain_def isspace_def)

lemma plain_no_newline: "plain v \<Longrightarrow> CHR 0x0A \<notin> set v"
  by (auto simp: plain_def list_all_iff isspace_def)

lemma config_lines_short:
  assumes "wf_config cfg" "plain (static_ip cfg)" "plain (gateway cfg)" "plain (netmask cfg)" "plain (protocol cfg)"
  shows "\<forall>l \<in> set (config_lines cfg). CHR 0x0A \<notin> set l \<and> length l < 255"
proof -
  have "length (bool_text b) \<le> 5" for b by (simp add: bool_text_def)
  moreover have "length (level_text l) \<le> 5" for l by (cases l) (simp_all add: level_text_def)
  ultimately show ?thesis
    using assms plain_no_newline [OF plain_printed(1)] plain_no_newline [OF plain_printed(2)]
    by (auto simp: config_lines_def wf_config_def le_less_trans dest: plain_no_newline
        intro!: le_less_trans [of "length (bool_text _)" 5] le_less_trans [of "length (level_text _)" 5])
qed

lemma printed_key:
  assumes "plain v"
  shows "config_line ((''no_route = '' @ v) @ [CHR 0x0A]) (section, cfg) = (section, set_key section ''no_route'' v cfg)"
    "config_line ((''no_dns = '' @ v) @ [CHR 0x0A]) (section, cfg) = (section, set_key section ''no_dns'' v cfg)"
    "config_line ((''static_ip = '' @ v) @ [CHR 0x0A]) (section, cfg) = (section, set_key section ''static_ip'' v cfg)"
    "config_line ((''gateway = '' @ v) @ [CHR 0x0A]) (section, cfg) = (section, set_key section ''gateway'' v cfg)"
    "config_line ((''netmask = '' @ v) @ [CHR 0x0A]) (section, cfg) = (section, set_key section ''netmask'' v cfg)"
    "config_line ((''level = '' @ v) @ [CHR 0x0A]) (section, cfg) = (section, set_key section ''level'' v cfg)"
    "config_line ((''driver = '' @ v) @ [CHR 0x0A]) (section, cfg) = (section, set_key section ''driver'' v cfg)"
  using key_line [OF _ _ _ _ assms, of "''no_route''" "section" cfg]
    key_line [OF _ _ _ _ assms, of "''no_dns''" "section" cfg]
    key_line [OF _ _ _ _ assms, of "''static_ip''" "section" cfg]
    key_line [OF _ _ _ _ assms, of "''gateway''" "section" cfg]
    key_line [OF _ _ _ _ assms, of "''netmask''" "section" cfg]
    key_line [OF _ _ _ _ assms, of "''level''" "section" cfg]
    key_line [OF _ _ _ _ assms, of "''driver''" "section" cfg]
  by (simp_all add: plain_def isspace_def)

text \<open>
  C37: A configuration survives being written to a file and read back: of every configuration whose
  strings fit and hold no white space, the described file sets every field the file can set, and an
  empty string in the file leaves the earlier value, over any earlier configuration.
\<close>

theorem config_file_roundtrip:
  assumes "wf_config cfg" "plain (static_ip cfg)" "plain (gateway cfg)" "plain (netmask cfg)" "plain (protocol cfg)"
    and "fs path = Some (config_text cfg)"
  shows "config_load_file fs base path = (0, base\<lparr>no_route := no_route cfg, no_dns := no_dns cfg,
    static_ip := or_else (static_ip cfg) (static_ip base), gateway := or_else (gateway cfg) (gateway base),
    netmask := or_else (netmask cfg) (netmask base), cfg_log_level := cfg_log_level cfg,
    protocol := or_else (protocol cfg) (protocol base)\<rparr>)"
proof -
  have "lines_of (config_text cfg) = map (\<lambda>l. l @ [CHR 0x0A]) (config_lines cfg)"
    unfolding config_text_def using config_lines_short [OF assms(1-5)] by (rule lines_of_lines)
  moreover have "config_line (''['' @ ''network'' @ '']'' @ [CHR 0x0A]) (sec, c) = (''network'', c)"
    "config_line (''['' @ ''logging'' @ '']'' @ [CHR 0x0A]) (sec, c) = (''logging'', c)"
    "config_line (''['' @ ''protocol'' @ '']'' @ [CHR 0x0A]) (sec, c) = (''protocol'', c)" for sec c
    using section_line [of "''network''" sec c] section_line [of "''logging''" sec c]
      section_line [of "''protocol''" sec c] by simp_all
  moreover have "strlcpy 16 (static_ip cfg) = static_ip cfg" "strlcpy 16 (gateway cfg) = gateway cfg"
    "strlcpy 16 (netmask cfg) = netmask cfg" "strlcpy 16 (protocol cfg) = protocol cfg"
    using assms(1) by (simp_all add: wf_config_def)
  ultimately show ?thesis
    using assms(6) printed_key [OF plain_printed(1)] printed_key [OF plain_printed(2)]
      printed_key [OF assms(2)] printed_key [OF assms(3)] printed_key [OF assms(4)] printed_key [OF assms(5)]
    by (simp add: config_load_file_def load_text_def config_lines_def set_key_def or_else_def)
qed

lemma config_file_roundtrip_witness:
  "config_load_file [''f'' \<mapsto> config_text (config_init_defaults\<lparr>no_dns := True, static_ip := ''10.0.0.2''\<rparr>)]
     config_init_defaults ''f'' = (0, config_init_defaults\<lparr>no_dns := True, static_ip := ''10.0.0.2''\<rparr>)"
proof -
  let ?c = "config_init_defaults\<lparr>no_dns := True, static_ip := ''10.0.0.2''\<rparr>"
  have "wf_config ?c" "plain (static_ip ?c)" "plain (gateway ?c)" "plain (netmask ?c)" "plain (protocol ?c)"
    by (simp_all add: wf_config_def config_init_defaults_def plain_def isspace_def DEFAULT_NETMASK_def)
  from config_file_roundtrip [OF this, of "[''f'' \<mapsto> config_text ?c]" "''f''" config_init_defaults] show ?thesis
    by (simp add: config_init_defaults_def or_else_def)
qed

definition args_of :: "char \<Rightarrow> opt_event list \<Rightarrow> string list" where
  "args_of c es = map snd (filter (\<lambda>e. fst e = c) es)"

lemma args_of_simps [simp]:
  "args_of c [] = []" "args_of c ((c', a) # es) = (if c' = c then a # args_of c es else args_of c es)"
  by (simp_all add: args_of_def)

text \<open>The options that only set fields.\<close>

definition setting :: "char \<Rightarrow> bool" where
  "setting c \<longleftrightarrow> c \<in> {CHR ''n'', CHR ''d'', CHR ''s'', CHR ''g'', CHR ''m'', CHR ''v'', CHR ''w''}"

definition last_or :: "string list \<Rightarrow> string \<Rightarrow> string" where
  "last_or vs v = (if vs = [] then v else strlcpy 16 (last vs))"

lemma last_or_Cons: "last_or (v # vs) w = last_or vs (strlcpy 16 v)"
  by (simp add: last_or_def)

lemma cli_setting:
  assumes "setting c"
  shows "fst (cli_option fs c a cfg) = None"
    "static_ip (snd (cli_option fs c a cfg)) = (if c = CHR ''s'' then strlcpy 16 a else static_ip cfg)"
    "gateway (snd (cli_option fs c a cfg)) = (if c = CHR ''g'' then strlcpy 16 a else gateway cfg)"
    "netmask (snd (cli_option fs c a cfg)) = (if c = CHR ''m'' then strlcpy 16 a else netmask cfg)"
    "no_route (snd (cli_option fs c a cfg)) = (no_route cfg \<or> c = CHR ''n'')"
    "no_dns (snd (cli_option fs c a cfg)) = (no_dns cfg \<or> c = CHR ''d'')"
    "watch_mode (snd (cli_option fs c a cfg)) = (watch_mode cfg \<or> c = CHR ''w'')"
  using assms by (auto simp: setting_def cli_option_def)

lemma apply_settings:
  "\<forall>e \<in> set es. setting (fst e) \<Longrightarrow> \<exists>cfg'. apply_events fs es cfg = (Cli_Return 0, cfg') \<and>
     static_ip cfg' = last_or (args_of CHR ''s'' es) (static_ip cfg) \<and>
     gateway cfg' = last_or (args_of CHR ''g'' es) (gateway cfg) \<and>
     netmask cfg' = last_or (args_of CHR ''m'' es) (netmask cfg) \<and>
     no_route cfg' = (no_route cfg \<or> args_of CHR ''n'' es \<noteq> []) \<and>
     no_dns cfg' = (no_dns cfg \<or> args_of CHR ''d'' es \<noteq> []) \<and>
     watch_mode cfg' = (watch_mode cfg \<or> args_of CHR ''w'' es \<noteq> [])"
proof (induction es arbitrary: cfg)
  case (Cons e es)
  obtain c a where e: "e = (c, a)" by (cases e)
  have c: "setting c" using Cons.prems e by simp
  obtain cfg' where cfg': "apply_events fs es (snd (cli_option fs c a cfg)) = (Cli_Return 0, cfg')"
      "static_ip cfg' = last_or (args_of CHR ''s'' es) (static_ip (snd (cli_option fs c a cfg)))"
      "gateway cfg' = last_or (args_of CHR ''g'' es) (gateway (snd (cli_option fs c a cfg)))"
      "netmask cfg' = last_or (args_of CHR ''m'' es) (netmask (snd (cli_option fs c a cfg)))"
      "no_route cfg' = (no_route (snd (cli_option fs c a cfg)) \<or> args_of CHR ''n'' es \<noteq> [])"
      "no_dns cfg' = (no_dns (snd (cli_option fs c a cfg)) \<or> args_of CHR ''d'' es \<noteq> [])"
      "watch_mode cfg' = (watch_mode (snd (cli_option fs c a cfg)) \<or> args_of CHR ''w'' es \<noteq> [])"
    using Cons.IH [of "snd (cli_option fs c a cfg)"] Cons.prems by auto
  have "apply_events fs (e # es) cfg = (Cli_Return 0, cfg')"
    using cfg'(1) cli_setting(1) [OF c, of fs a cfg] e by (cases "cli_option fs c a cfg") simp
  with cfg'(2-) e show ?case by (auto simp: cli_setting [OF c] last_or_Cons)
qed (simp add: last_or_def)


lemma demo_args:
  "getopt_events [''--static'', ''10.0.0.2'', ''extra'', ''-nw'', ''--gate=10.0.0.1''] =
     [(CHR ''s'', ''10.0.0.2''), (CHR ''n'', []), (CHR ''w'', []), (CHR ''g'', ''10.0.0.1'')]"
  by code_simp


section \<open>Where the code differs from its documentation\<close>

text \<open>
  \<open>config.h\<close> and the README put the command line above every file, but \<open>-c\<close> is applied when it is
  met: the file overrides the options before it.
\<close>

lemma file_overrides_earlier_option:
  "static_ip (snd (config_apply_cli [''f'' \<mapsto> ''[network]'' @ [CHR 0x0A] @ ''static_ip = 10.0.0.9'']
     config_init_defaults [''-s'', ''10.0.0.1'', ''-c'', ''f''])) = ''10.0.0.9''"
  by code_simp

text \<open>A line of more than 255 characters is read as several lines, so the end of a comment can set a key.\<close>

lemma long_comment_sets_key:
  "no_dns (load_text (''[network]'' @ [CHR 0x0A] @ CHR ''#'' # replicate 254 CHR ''x'' @ ''no_dns = true'')
     config_init_defaults)"
  by code_simp

text \<open>\<open>strtol\<close> accepts 64 bits, and the conversion to \<open>int\<close> keeps 32 of them: the watched process is another one.\<close>

lemma ui_pid_truncated:
  "config_apply_cli Map.empty config_init_defaults [''--ui-pid'', ''4294967297''] =
     (Cli_Return 0, config_init_defaults\<lparr>ui_pid := 1\<rparr>)"
proof -
  have "getopt_events [''--ui-pid'', ''4294967297''] = [(CHR ''p'', ''4294967297'')]" by code_simp
  moreover have "strtol ''4294967297'' = Some (4294967297, [])" by code_simp
  ultimately show ?thesis by (simp add: config_apply_cli_def to_int_def cli_option_def)
qed

end
