(* ===== verification/Daemon.thy ===== *)
theory Daemon
  imports Session_Switch Config
begin

text \<open>
  \<open>main\<close> of \<^verbatim>\<open>src/main.c\<close>: the configuration, the start of the daemon, watch mode, the one-shot mode with
  its reconnect loop, and the clean up at exit.  The loops take the session as an argument; what they
  need of it is the locale \<open>session_contract\<close>, which \<open>run_session\<close> fulfils.
\<close>

section \<open>Watch mode\<close>

text \<open>
  One iteration of the watch loop: the answers for the poll at its start, the outside of the session
  it may run, and the answers for the at most six polls of the pause after it.
\<close>

record 'e watch_round =
  wr_poll :: tick
  wr_session :: 'e
  wr_wait :: "nat \<Rightarrow> tick"

text \<open>\<open>written\<close> is the result of a \<open>write\<close> to a client.\<close>

definition announce :: "(int \<Rightarrow> string \<Rightarrow> int) \<Rightarrow> string \<Rightarrow> 'd world \<Rightarrow> 'd world" where
  "announce written state w = act (map Ipc (ipc_server_send_state written (w_ipc w) state None)) w"

definition set_enabled :: "bool \<Rightarrow> 'd world \<Rightarrow> 'd world" where
  "set_enabled on w = w\<lparr>w_globals := (w_globals w)\<lparr>g_watch_enabled := on\<rparr>\<rparr>"

definition watch_command :: "(int \<Rightarrow> string \<Rightarrow> int) \<Rightarrow> int \<Rightarrow> 'd world \<Rightarrow> 'd world" where
  "watch_command written cmd w =
     (if cmd = IPC_CMD_DISABLE then announce written ''idle'' (set_enabled False w)
      else if cmd = IPC_CMD_ENABLE then announce written ''watching'' (set_enabled True w)
      else w)"

definition watch_poll :: "(int \<Rightarrow> string \<Rightarrow> int) \<Rightarrow> tick \<Rightarrow> 'd world \<Rightarrow> 'd world" where
  "watch_poll written k w =
     (if w_ipc w = None then w else let (cmd, w') = poll_ipc k w in watch_command written cmd w')"

text \<open>In the pause an enable command is not announced.\<close>

definition pause_command :: "(int \<Rightarrow> string \<Rightarrow> int) \<Rightarrow> int \<Rightarrow> 'd world \<Rightarrow> 'd world" where
  "pause_command written cmd w =
     (if cmd = IPC_CMD_DISABLE then announce written ''idle'' (set_enabled False w)
      else if cmd = IPC_CMD_ENABLE then set_enabled True w
      else w)"

definition pause_poll :: "(int \<Rightarrow> string \<Rightarrow> int) \<Rightarrow> tick \<Rightarrow> 'd world \<Rightarrow> 'd world" where
  "pause_poll written k w =
     (if w_ipc w = None then w else let (cmd, w') = poll_ipc k w in pause_command written cmd w')"

fun watch_pause :: "(int \<Rightarrow> string \<Rightarrow> int) \<Rightarrow> tick list \<Rightarrow> 'd world \<Rightarrow> 'd world" where
  "watch_pause written [] w = w"
| "watch_pause written (k # ks) w =
     (let w1 = interrupted (k_signal k) w
      in if g_running (w_globals w1) \<and> g_watch_enabled (w_globals w1)
         then watch_pause written ks (pause_poll written k w1) else w1)"

definition watch_retry :: "(int \<Rightarrow> string \<Rightarrow> int) \<Rightarrow> (nat \<Rightarrow> tick) \<Rightarrow> int \<Rightarrow> 'd world \<Rightarrow> 'd world" where
  "watch_retry written wait result w =
     (if result = 1 \<and> g_running (w_globals w) then
        watch_pause written (map wait [0..<6])
          (if w_ipc w \<noteq> None \<and> g_watch_enabled (w_globals w) then announce written ''watching'' w else w)
      else w)"

text \<open>The rounds are the fuel: without an end among them the daemon is still running.\<close>

fun watch_loop ::
    "('e \<Rightarrow> 'd world \<Rightarrow> (int \<times> 'd world) run) \<Rightarrow> (int \<Rightarrow> string \<Rightarrow> int) \<Rightarrow> 'e watch_round list \<Rightarrow> 'd world \<Rightarrow> 'd world run" where
  "watch_loop session written [] w = Inl No_Fuel"
| "watch_loop session written (r # rs) w =
     (let w1 = interrupted (k_signal (wr_poll r)) w
      in if \<not> g_running (w_globals w1) then Inr w1
         else let w2 = watch_poll written (wr_poll r) w1
              in if \<not> g_watch_enabled (w_globals w2) then watch_loop session written rs w2
                 else bindR (session (wr_session r) w2) (\<lambda>(result, w3).
                   watch_loop session written rs (watch_retry written (wr_wait r) result w3)))"

section \<open>One-shot mode\<close>

record 'e shot_round =
  sr_signal :: bool
  sr_session :: 'e
  sr_wait :: "nat \<Rightarrow> tick"

definition stop_daemon :: "bool \<Rightarrow> 'd world \<Rightarrow> 'd world" where
  "stop_daemon b w = (if b then w\<lparr>w_globals := (w_globals w)\<lparr>g_running := False\<rparr>\<rparr> else w)"

definition reconnect_poll :: "tick \<Rightarrow> 'd world \<Rightarrow> 'd world" where
  "reconnect_poll k w =
     (let w1 = stop_daemon (ui_died k (w_globals w)) w;
          (trigger, w2) = poll_trigger k w1;
          w3 = stop_daemon trigger w2
      in if w_ipc w3 = None then w3
         else let (cmd, w4) = poll_ipc k w3 in stop_daemon (cmd = IPC_CMD_STOP) w4)"

fun reconnect_pause :: "tick list \<Rightarrow> 'd world \<Rightarrow> 'd world" where
  "reconnect_pause [] w = w"
| "reconnect_pause (k # ks) w =
     (let w1 = interrupted (k_signal k) w
      in if g_running (w_globals w1) then reconnect_pause ks (reconnect_poll k w1) else w1)"

fun shot_loop ::
    "('e \<Rightarrow> 'd world \<Rightarrow> (int \<times> 'd world) run) \<Rightarrow> 'e shot_round list \<Rightarrow> 'd world \<Rightarrow> 'd world run" where
  "shot_loop session [] w = Inl No_Fuel"
| "shot_loop session (r # rs) w =
     (let w1 = interrupted (sr_signal r) w
      in if \<not> g_running (w_globals w1) then Inr w1
         else bindR (session (sr_session r) w1) (\<lambda>(result, w2).
           if result = 0 then Inr w2
           else shot_loop session rs (reconnect_pause (map (sr_wait r) [0..<6]) w2)))"

section \<open>The program\<close>

record ('d, 'f) daemon_env =
  m_home :: "string option"
  m_pw_dir :: "string option"
  m_args :: "string list"
  m_root :: bool
  m_ipc_mem :: bool
  m_ipc_fd :: int
  m_ipc_bind :: bool
  m_sudo :: bool
  m_listen :: bool
  m_written :: "int \<Rightarrow> string \<Rightarrow> int"
  m_watch :: "('d, 'f) session_env watch_round list"
  m_shots :: "('d, 'f) session_env shot_round list"

definition start_globals :: globals where
  "start_globals = \<lparr>g_running = True, g_no_route = False, g_no_dns = False, g_network_bound = False,
     g_ui_pid = 0, g_watch_mode = False, g_watch_enabled = False\<rparr>"

definition configured :: "tether_config \<Rightarrow> globals" where
  "configured cfg = start_globals\<lparr>g_no_route := no_route cfg, g_no_dns := no_dns cfg, g_ui_pid := ui_pid cfg,
     g_watch_mode := watch_mode cfg\<rparr>"

text \<open>A session with the arguments that \<open>main\<close> passes.\<close>

definition configured_session ::
    "tether_config \<Rightarrow> ('d, 'f) session_env \<Rightarrow> 'd world \<Rightarrow> (int \<times> 'd world) run" where
  "configured_session cfg env w =
     run_session env (no_route cfg) (no_dns cfg) (Some (static_ip cfg)) (Some (gateway cfg)) (netmask cfg) w"

text \<open>The \<open>atexit\<close> handler.\<close>

definition leave :: "'d world \<Rightarrow> 'd world" where
  "leave w = (let (g, fs, calls) = cleanup_at_exit (w_globals w) (w_files w)
              in act calls (w\<lparr>w_globals := g, w_files := fs\<rparr>))"

definition close_ipc :: "'d world \<Rightarrow> 'd world" where
  "close_ipc w = act (map Ipc (ipc_server_destroy (w_ipc w))) w"

definition daemon_run :: "('d, 'f) daemon_env \<Rightarrow> tether_config \<Rightarrow> 'd world \<Rightarrow> (int \<times> 'd world) run" where
  "daemon_run env cfg w0 =
     (let (srv, calls) = ipc_server_create (m_ipc_mem env) (m_ipc_fd env) (m_ipc_bind env) (m_sudo env) (m_listen env);
          w = act (map Ipc calls) (w0\<lparr>w_globals := configured cfg, w_ipc := srv\<rparr>)
      in bindR (if watch_mode cfg
                then watch_loop (configured_session cfg) (m_written env) (m_watch env)
                       (if srv \<noteq> None then announce (m_written env) ''idle'' w else w)
                else shot_loop (configured_session cfg) (m_shots env) w)
           (\<lambda>w'. Inr (0, leave (close_ipc w'))))"

text \<open>The result is the exit status; \<open>files\<close> are the files of the host, with the configuration.\<close>

definition daemon_main :: "('d, 'f) daemon_env \<Rightarrow> files \<Rightarrow> 'd \<Rightarrow> (int \<times> 'd world) run" where
  "daemon_main env fs d =
     (let w0 = \<lparr>w_globals = start_globals, w_ipc = None, w_dev = d, w_files = fs, w_calls = []\<rparr>;
          cfg0 = snd (config_load_default fs (m_home env) (m_pw_dir env) config_init_defaults);
          (res, cfg) = config_apply_cli fs cfg0 (m_args env)
      in case res of
           Cli_Exit \<Rightarrow> Inr (0, w0)
         | Cli_Return n \<Rightarrow>
             if n = 1 then Inr (0, w0)
             else if n < 0 then Inr (1, w0)
             else if \<not> m_root env then Inr (1, w0)
             else daemon_run env cfg w0)"

section \<open>A session in watch mode leaves the daemon running\<close>

definition alive :: "'d world \<Rightarrow> bool" where
  "alive w \<longleftrightarrow> g_watch_mode (w_globals w) \<and> g_running (w_globals w) \<and> w_files w STOP_TRIGGER_PATH = None"

text \<open>No signal and no stop file during the session.\<close>

definition undisturbed :: "('d, 'f) session_env \<Rightarrow> bool" where
  "undisturbed env \<longleftrightarrow> \<not> s_signal_before env \<and> \<not> s_signal_after env \<and>
     list_all (\<lambda>k. \<not> k_signal k \<and> \<not> k_stop_file k) (s_ticks env)"

lemma alive_simps [simp]:
  "alive (act cs w) = alive w" "alive (w\<lparr>w_dev := d\<rparr>) = alive w" "alive (w\<lparr>w_ipc := srv\<rparr>) = alive w"
  "alive (set_enabled on w) = alive w" "alive (announce written state w) = alive w"
  "alive (w\<lparr>w_globals := (w_globals w)\<lparr>g_network_bound := b\<rparr>\<rparr>) = alive w" "interrupted False w = w"
  by (simp_all add: alive_def set_enabled_def announce_def interrupted_def)

lemma alive_observe: "\<not> k_signal k \<Longrightarrow> alive (snd (observe k s)) = alive (snd s)"
  by (simp add: observe_def split: prod.splits)

lemma alive_keepalive: "keepalive_round env drv k (lp, w) = Inr (lp', w') \<Longrightarrow> alive w' = alive w"
  by (auto simp: keepalive_round_def bindR_eq_Inr split: if_splits option.splits)

lemma alive_poll [simp]: "alive (snd (poll_ipc k w)) = alive w"
  by (simp add: poll_ipc_def split: prod.splits)

lemma poll_trigger_files: "w_files (snd (poll_trigger k w)) STOP_TRIGGER_PATH = None"
  by (auto simp: poll_trigger_def stats_check_stop_trigger_def)

lemma alive_stats: "alive (snd s) \<Longrightarrow> \<not> k_stop_file k \<Longrightarrow> alive (snd (stats_round env k s))"
proof -
  assume a: "alive (snd s)" "\<not> k_stop_file k"
  obtain lp w where s: "s = (lp, w)" by fastforce
  obtain lp1 w1 where c: "count_round env k s = (lp1, w1)" by fastforce
  have w1: "alive w1" using a c by (auto simp: s count_round_def Let_def publish_stats_def alive_def)
  then have "ui_check k (lp1, w1) = (lp1, w1)" by (simp add: ui_check_def alive_def)
  moreover have "poll_trigger k w1 = (False, w1)"
    using w1 a(2) by (simp add: poll_trigger_def stats_check_stop_trigger_def alive_def)
  then have "trigger_check k (lp1, w1) = (lp1, w1)" by (simp add: trigger_check_def)
  moreover have "alive (snd (command_check k (lp1, w1)))"
  proof -
    obtain cmd w2 where p: "poll_ipc k w1 = (cmd, w2)" by fastforce
    have "alive w2" using alive_poll [of k w1] p w1 by simp
    then show ?thesis using w1 p by (auto simp: command_check_def session_command_def alive_def Let_def)
  qed
  ultimately show ?thesis using a(1) c by (simp add: stats_round_def)
qed

lemma loop_alive:
  "session_loop env drv ks (lp, w) = Inr (lp', w') \<Longrightarrow> list_all (\<lambda>k. \<not> k_signal k \<and> \<not> k_stop_file k) ks \<Longrightarrow>
     alive w \<Longrightarrow> alive w'"
proof (induction ks arbitrary: lp w)
  case (Cons k ks)
  obtain lp1 w1 where o: "observe k (lp, w) = (lp1, w1)" by fastforce
  then have a1: "alive w1" using alive_observe [of k "(lp, w)"] Cons.prems by simp
  show ?case
  proof (cases "g_running (w_globals w1) \<and> lp_running lp1")
    case True
    with Cons.prems o obtain lp2 w2 where r: "keepalive_round env drv k (lp1, w1) = Inr (lp2, w2)"
      "session_loop env drv ks (stats_round env k (lp2, w2)) = Inr (lp', w')"
      by (auto simp: session_tick_def bindR_eq_Inr)
    obtain lp3 w3 where s: "stats_round env k (lp2, w2) = (lp3, w3)" by fastforce
    have "alive w3" using alive_keepalive [OF r(1)] alive_stats [of "(lp2, w2)" k env] s a1 Cons.prems(2) by simp
    then show ?thesis using Cons.IH r(2) s Cons.prems(2) by simp
  qed (use Cons.prems o a1 in auto)
qed simp

lemma alive_restore [simp]: "alive (restore_net w) = alive w"
  by (simp add: restore_net_def restore_network_state_def alive_def)

lemma alive_stages [simp]:
  "alive (send_state env state addr w) = alive w" "alive (close_usb usb w) = alive w" "alive (close_tun tun w) = alive w"
  by (simp_all add: send_state_def close_usb_def close_tun_def)

lemma give_up_alive: "alive w \<Longrightarrow> alive (snd (give_up w))"
  by (simp add: give_up_def)

lemma bridge_alive:
  assumes "bridge_session env usb drv st device_mac tun cfg our_ip w = Inr x" "undisturbed env" "alive w"
  shows "alive (snd x)"
  using assms loop_alive [of env drv "s_ticks env"]
  by (auto simp: bridge_session_def bindR_eq_Inr Let_def undisturbed_def)

lemma tunnel_alive:
  assumes "tunnel_session env nr nd usb drv st device_mac cfg our_ip w = Inr x" "undisturbed env" "alive w"
  shows "alive (snd x)"
proof -
  obtain q tun log where c: "utun_create (s_socket env) (s_info env) (s_connects env) (s_flags env) = (q, tun, log)"
    by (metis prod_cases3)
  obtain q' conf where f: "utun_configure (s_shell env) tun (n_ip cfg) (n_gateway cfg) (n_netmask cfg) = (q', conf)"
    by fastforce
  let ?w3 = "act (map Shell (network_commands (s_shell env) nr nd tun cfg)) (act (map Shell conf) (act (map Tun log) w))"
  let ?w4 = "?w3\<lparr>w_globals := (w_globals ?w3)\<lparr>g_network_bound := True\<rparr>\<rparr>"
  have "alive ?w4" unfolding alive_simps by (rule assms(3))
  moreover have "q < 0 \<or> q' < 0 \<or> bridge_session env usb drv st device_mac tun cfg our_ip ?w4 = Inr x"
    using assms(1) c f by (auto simp: tunnel_session_def Let_def split: if_splits)
  ultimately show ?thesis
    using assms c f bridge_alive [OF _ assms(2)] by (auto simp: tunnel_session_def Let_def give_up_alive split: if_splits)
qed

lemma driver_alive:
  assumes "driver_session env nr nd ip gw nm usb drv w = Inr x" "undisturbed env" "alive w"
  shows "alive (snd x)"
proof -
  have tunnel: "alive (snd y)" if "tunnel_session env nr nd usb drv st mac cfg a (w\<lparr>w_dev := d\<rparr>) = Inr y"
    for st mac cfg a d y using tunnel_alive [OF that assms(2)] assms(3) by simp
  from assms(1,3) show ?thesis
    by (auto simp: driver_session_def bindR_eq_Inr Let_def give_up_alive split: if_splits prod.splits option.splits
        dest!: tunnel)
qed

lemma session_alive:
  assumes "run_session env nr nd ip gw nm w = Inr x" "undisturbed env" "alive w"
  shows "alive (snd x)"
proof -
  obtain found usb log where u: "usb_find_rndis_device (s_usb_init env) (s_usb_list env) = (found, usb, log)"
    by (metis prod_cases3)
  have driver: "alive (snd y)" if "driver_session env nr nd ip gw nm usb drv (act cs w) = Inr y" for drv cs y
    using driver_alive [OF that assms(2)] assms(3) by simp
  show ?thesis
    using assms u
    by (auto simp: run_session_def Let_def undisturbed_def give_up_alive split: option.splits if_splits dest!: driver)
qed

section \<open>What the loops need of a session\<close>

definition bound :: "'d world \<Rightarrow> bool" where
  "bound w = g_network_bound (w_globals w)"

text \<open>Later by calls that give back what they take, with the network as unbound as before.\<close>

definition clean_step :: "'d world \<Rightarrow> 'd world \<Rightarrow> bool" where
  "clean_step w w' \<longleftrightarrow> \<not> bound w' \<and> (\<exists>cs. w_calls w' = w_calls w @ cs \<and> gives_back cs)"

locale session_contract =
  fixes session :: "'e \<Rightarrow> 'd world \<Rightarrow> (int \<times> 'd world) run" and calm_session :: "'e \<Rightarrow> bool"
  assumes follows: "session e w = Inr (r, w') \<Longrightarrow> g_watch_enabled (w_globals w) \<Longrightarrow> tracks w w'"
    and balanced: "session e w = Inr (r, w') \<Longrightarrow> \<not> bound w \<Longrightarrow> clean_step w w'"
    and survives: "session e w = Inr (r, w') \<Longrightarrow> calm_session e \<Longrightarrow> alive w \<Longrightarrow> alive w'"

interpretation rndis_session: session_contract "configured_session cfg" undisturbed for cfg
proof
  fix e :: "('d, 'f) session_env" and w w' :: "'d world" and r
  assume s: "configured_session cfg e w = Inr (r, w')"
  show "tracks w w'" if "g_watch_enabled (w_globals w)"
    using s session_tracks that unfolding configured_session_def by blast
  show "clean_step w w'" if "\<not> bound w"
    using session_finished [OF s [unfolded configured_session_def]] that
    by (simp add: clean_step_def bound_def finished_def reached_def gives_back_holds)
  show "alive w'" if "undisturbed e" "alive w"
    using session_alive [OF s [unfolded configured_session_def] that] by simp
qed

text \<open>Steps of the loops outside a session.\<close>

lemma gives_back_append: "gives_back cs \<Longrightarrow> gives_back cs' \<Longrightarrow> gives_back (cs @ cs')"
  by (simp add: gives_back_def account_append)

lemma gives_back_neutral: "neutral cs \<Longrightarrow> gives_back cs"
  by (simp add: gives_back_def neutral_def)

lemma clean_trans: "clean_step w w' \<Longrightarrow> clean_step w' w'' \<Longrightarrow> clean_step w w''"
  unfolding clean_step_def by (metis append.assoc gives_back_append)

lemma clean_neutral:
  "\<not> bound w \<Longrightarrow> w_calls w' = w_calls w @ cs \<Longrightarrow> neutral cs \<Longrightarrow> bound w' = bound w \<Longrightarrow> clean_step w w'"
  by (auto simp: clean_step_def gives_back_neutral)

lemma neutral_Ipc [simp]: "neutral (map Ipc cs)" "neutral []" "neutral (map Ipc cs @ [Polled cmd])"
proof -
  show ipc: "neutral (map Ipc cs)" for cs by (rule neutral_loop [OF quiet_Ipc])
  show "neutral []" by (simp add: neutral_def)
  show "neutral (map Ipc cs @ [Polled cmd])" using ipc [of cs] by (simp add: neutral_def)
qed

lemma bound_simps [simp]:
  "bound (act cs w) = bound w" "bound (interrupted sig w) = bound w" "bound (set_enabled on w) = bound w"
  "bound (announce written state w) = bound w" "bound (snd (poll_ipc k w)) = bound w"
  "bound (snd (poll_trigger k w)) = bound w" "bound (stop_daemon b w) = bound w"
  by (simp_all add: bound_def interrupted_def signal_handler_def set_enabled_def announce_def poll_ipc_def poll_trigger_def
      stop_daemon_def split: prod.splits)

lemma poll_then:
  assumes "poll_ipc k w = (cmd, w1)" "w_calls w2 = w_calls w1 @ map Ipc is"
    and "g_watch_enabled (w_globals w2) = flip cmd (g_watch_enabled (w_globals w1))" "bound w2 = bound w1"
  shows "tracks w w2 \<and> (\<not> bound w \<longrightarrow> clean_step w w2)"
proof -
  obtain srv calls where w1: "w1 = act (map Ipc calls @ [Polled cmd]) (w\<lparr>w_ipc := srv\<rparr>)"
    using assms(1) by (auto simp: poll_ipc_def split: prod.splits)
  have "switch_run on (map Ipc calls @ Polled cmd # map Ipc is) = Some (flip cmd on)" for on
    by (simp add: switch_append switch_still)
  moreover have "neutral ((map Ipc calls @ [Polled cmd]) @ map Ipc is)" by (rule neutral_append) (rule neutral_Ipc)+
  ultimately show ?thesis
    using assms(2-4) unfolding w1 by (auto simp: tracks_def bound_def intro!: clean_neutral)
qed

text \<open>What every step of the loops between sessions keeps.\<close>

definition between :: "'d world \<Rightarrow> 'd world \<Rightarrow> bool" where
  "between w w' \<longleftrightarrow> tracks w w' \<and> (\<not> bound w \<longrightarrow> clean_step w w') \<and> (alive w \<longrightarrow> alive w')"

lemma between_trans: "between w w' \<Longrightarrow> between w' w'' \<Longrightarrow> between w w''"
  unfolding between_def using tracks_trans clean_trans clean_step_def by metis

lemma between_refl [simp]: "between w w"
  by (auto simp: between_def tracks_same intro: clean_neutral)

lemma watch_poll_between: "between w (watch_poll written k w)"
proof (cases "w_ipc w")
  case (Some srv)
  obtain cmd w1 where p: "poll_ipc k w = (cmd, w1)" by fastforce
  let ?w2 = "watch_command written cmd w1"
  have "\<exists>is. w_calls ?w2 = w_calls w1 @ map Ipc is"
    by (auto simp: watch_command_def announce_def set_enabled_def intro: exI [of _ "[]"])
  moreover have "g_watch_enabled (w_globals ?w2) = flip cmd (g_watch_enabled (w_globals w1))" "bound ?w2 = bound w1"
    by (auto simp: watch_command_def announce_def set_enabled_def flip_def bound_def)
  moreover have "alive ?w2 = alive w1" by (simp add: watch_command_def)
  ultimately show ?thesis
    using poll_then [OF p] alive_poll [of k w] p Some by (auto simp: between_def watch_poll_def)
qed (simp add: watch_poll_def)

lemma pause_poll_between: "between w (pause_poll written k w)"
proof (cases "w_ipc w")
  case (Some srv)
  obtain cmd w1 where p: "poll_ipc k w = (cmd, w1)" by fastforce
  let ?w2 = "pause_command written cmd w1"
  have "\<exists>is. w_calls ?w2 = w_calls w1 @ map Ipc is"
    by (auto simp: pause_command_def announce_def set_enabled_def intro: exI [of _ "[]"])
  moreover have "g_watch_enabled (w_globals ?w2) = flip cmd (g_watch_enabled (w_globals w1))" "bound ?w2 = bound w1"
    by (auto simp: pause_command_def announce_def set_enabled_def flip_def bound_def)
  moreover have "alive ?w2 = alive w1" by (simp add: pause_command_def)
  ultimately show ?thesis
    using poll_then [OF p] alive_poll [of k w] p Some by (auto simp: between_def pause_poll_def)
qed (simp add: pause_poll_def)

text \<open>A signal keeps all but \<open>alive\<close>.\<close>

lemma interrupted_between:
  "tracks w (interrupted sig w)" "\<not> bound w \<Longrightarrow> clean_step w (interrupted sig w)"
  by (rule tracks_interrupted, rule clean_neutral [of _ _ "[]"])
    (simp_all add: interrupted_def signal_handler_def bound_def)

definition follows_clean :: "'d world \<Rightarrow> 'd world \<Rightarrow> bool" where
  "follows_clean w w' \<longleftrightarrow> tracks w w' \<and> (\<not> bound w \<longrightarrow> clean_step w w')"

lemma follows_clean_trans: "follows_clean w w' \<Longrightarrow> follows_clean w' w'' \<Longrightarrow> follows_clean w w''"
  unfolding follows_clean_def using tracks_trans clean_trans clean_step_def by metis

lemma follows_clean_interrupted: "follows_clean w (interrupted sig w)"
  by (simp add: follows_clean_def interrupted_between)

lemma follows_clean_between: "between w w' \<Longrightarrow> follows_clean w w'"
  by (simp add: between_def follows_clean_def)

lemma clean_follows: "clean_step w w' \<Longrightarrow> follows_clean w' w'' \<Longrightarrow> clean_step w w''"
  unfolding follows_clean_def using clean_trans clean_step_def by metis

lemma pause_follows: "follows_clean w (watch_pause written ks w)"
proof (induction ks arbitrary: w)
  case (Cons k ks)
  have "follows_clean (interrupted (k_signal k) w) (watch_pause written ks (pause_poll written k (interrupted (k_signal k) w)))"
    by (rule follows_clean_trans [OF follows_clean_between [OF pause_poll_between] Cons.IH])
  with follows_clean_interrupted [of w "k_signal k"] show ?case
    by (auto simp: Let_def intro: follows_clean_trans)
qed (simp add: follows_clean_between)

lemma pause_alive: "alive w \<Longrightarrow> list_all (\<lambda>k. \<not> k_signal k) ks \<Longrightarrow> alive (watch_pause written ks w)"
  by (induction ks arbitrary: w) (use pause_poll_between in \<open>auto simp: between_def Let_def\<close>)

lemma announce_between: "between w (announce written state w)"
  by (auto simp: between_def announce_def tracks_act intro!: clean_neutral)

lemma retry_follows: "follows_clean w (watch_retry written wait result w)"
  unfolding watch_retry_def
  by (auto simp: follows_clean_between
      intro: pause_follows follows_clean_trans [OF follows_clean_between [OF announce_between] pause_follows])

lemma retry_alive: "alive w \<Longrightarrow> \<forall>i < 6. \<not> k_signal (wait i) \<Longrightarrow> alive (watch_retry written wait result w)"
  by (simp add: watch_retry_def list_all_iff pause_alive)

text \<open>The pause of the one-shot mode.\<close>

lemma stop_daemon_clean: "\<not> bound w \<Longrightarrow> clean_step w (stop_daemon b w)"
  by (rule clean_neutral [of _ _ "[]"]) (simp_all add: stop_daemon_def bound_def)

lemma poll_trigger_clean: "\<not> bound w \<Longrightarrow> clean_step w (snd (poll_trigger k w))"
  by (rule clean_neutral [of _ _ "[]"]) (auto simp: poll_trigger_def bound_def split: prod.splits)

lemma poll_ipc_clean: "\<not> bound w \<Longrightarrow> clean_step w (snd (poll_ipc k w))"
proof -
  assume b: "\<not> bound w"
  obtain srv cmd calls where "ipc_server_poll (k_accepted k) (k_reads k) (w_ipc w) = (srv, cmd, calls)"
    by (metis prod_cases3)
  with b show ?thesis
    by (intro clean_neutral [of _ _ "map Ipc calls @ [Polled cmd]"]) (simp_all add: poll_ipc_def bound_def)
qed

lemma reconnect_poll_clean:
  assumes "\<not> bound w"
  shows "clean_step w (reconnect_poll k w)"
proof -
  let ?w1 = "stop_daemon (ui_died k (w_globals w)) w"
  obtain b w2 where t: "poll_trigger k ?w1 = (b, w2)" by fastforce
  let ?w3 = "stop_daemon b w2"
  have w2: "\<not> bound w2" using bound_simps(6) [of k ?w1] t assms by simp
  have "clean_step w ?w3"
    using clean_trans [OF stop_daemon_clean [OF assms] clean_trans [OF poll_trigger_clean [of ?w1 k]
      stop_daemon_clean [of "snd (poll_trigger k ?w1)" b]]] t w2 assms by simp
  moreover have "clean_step ?w3 (stop_daemon c (snd (poll_ipc k ?w3)))" for c
    using clean_trans [OF poll_ipc_clean [of ?w3 k] stop_daemon_clean [of "snd (poll_ipc k ?w3)" c]] w2 by simp
  ultimately show ?thesis
    using t by (auto simp: reconnect_poll_def Let_def split_beta intro: clean_trans)
qed

lemma reconnect_clean: "\<not> bound w \<Longrightarrow> clean_step w (reconnect_pause ks w)"
proof (induction ks arbitrary: w)
  case Nil
  then show ?case by (auto intro: clean_neutral)
next
  case (Cons k ks)
  let ?w1 = "interrupted (k_signal k) w"
  have w1: "clean_step w ?w1" "\<not> bound ?w1" using interrupted_between(2) Cons.prems by auto
  have "clean_step ?w1 (reconnect_pause ks (reconnect_poll k ?w1))"
    using reconnect_poll_clean [OF w1(2), of k] Cons.IH by (auto simp: clean_step_def [of _ "reconnect_poll k ?w1"]
      intro: clean_trans [OF reconnect_poll_clean [OF w1(2)]])
  with w1 show ?case by (auto simp: Let_def intro: clean_trans)
qed

section \<open>Watch mode follows the switch\<close>

context session_contract
begin

lemma watch_follows: "watch_loop session written rs w = Inr w' \<Longrightarrow> follows_clean w w'"
proof (induction rs arbitrary: w)
  case (Cons r rs)
  let ?w1 = "interrupted (k_signal (wr_poll r)) w"
  let ?w2 = "watch_poll written (wr_poll r) ?w1"
  have w2: "follows_clean w ?w2"
    by (rule follows_clean_trans [OF follows_clean_interrupted follows_clean_between [OF watch_poll_between]])
  consider "w' = ?w1" | "watch_loop session written rs ?w2 = Inr w'"
    | result w3 where "g_watch_enabled (w_globals ?w2)" "session (wr_session r) ?w2 = Inr (result, w3)"
        "watch_loop session written rs (watch_retry written (wr_wait r) result w3) = Inr w'"
  proof (cases "g_running (w_globals ?w1) \<and> g_watch_enabled (w_globals ?w2)")
    case True
    then have "bindR (session (wr_session r) ?w2) (\<lambda>(result, w3).
        watch_loop session written rs (watch_retry written (wr_wait r) result w3)) = Inr w'"
      using Cons.prems by (simp add: Let_def)
    then show ?thesis using True that(3) by (auto simp: bindR_eq_Inr)
  next
    case False
    then show ?thesis using Cons.prems that(1,2) by (cases "g_running (w_globals ?w1)") (simp_all add: Let_def)
  qed
  then show ?case
  proof cases
    case 1
    then show ?thesis by (simp add: follows_clean_interrupted)
  next
    case 2
    from w2 Cons.IH [OF 2] show ?thesis by (rule follows_clean_trans)
  next
    case 3
    then have "follows_clean ?w2 w3" using follows balanced by (simp add: follows_clean_def)
    from follows_clean_trans [OF w2 this] follows_clean_trans [OF retry_follows Cons.IH [OF 3(3)]]
    show ?thesis by (rule follows_clean_trans)
  qed
qed simp

lemma watch_persists:
  assumes "list_all (\<lambda>r. \<not> k_signal (wr_poll r) \<and> calm_session (wr_session r) \<and> (\<forall>i < 6. \<not> k_signal (wr_wait r i))) rs"
    and "alive w"
  shows "watch_loop session written rs w \<noteq> Inr w'"
  using assms
proof (induction rs arbitrary: w)
  case (Cons r rs)
  let ?w2 = "watch_poll written (wr_poll r) w"
  have run: "g_running (w_globals w)" "interrupted (k_signal (wr_poll r)) w = w"
    using Cons.prems by (simp_all add: alive_def)
  have w2: "alive ?w2" using watch_poll_between [of w] Cons.prems(2) by (simp add: between_def)
  have "watch_loop session written rs (watch_retry written (wr_wait r) result w3) \<noteq> Inr w'"
    if "session (wr_session r) ?w2 = Inr (result, w3)" for result w3
    using Cons.IH [OF _ retry_alive [OF survives [OF that _ w2]]] Cons.prems(1) by simp
  then show ?case using Cons.IH [OF _ w2] Cons.prems(1) run by (auto simp: Let_def bindR_eq_Inr)
qed simp

lemma shot_clean: "shot_loop session rs w = Inr w' \<Longrightarrow> \<not> bound w \<Longrightarrow> clean_step w w'"
proof (induction rs arbitrary: w)
  case (Cons r rs)
  let ?w1 = "interrupted (sr_signal r) w"
  have w1: "clean_step w ?w1" using interrupted_between(2) [OF Cons.prems(2)] .
  show ?case
  proof (cases "g_running (w_globals ?w1)")
    case False
    with Cons.prems w1 show ?thesis by (simp add: Let_def)
  next
    case True
    then obtain result w2 where s: "session (sr_session r) ?w1 = Inr (result, w2)"
      "(if result = 0 then Inr w2 else shot_loop session rs (reconnect_pause (map (sr_wait r) [0..<6]) w2)) = Inr w'"
      using Cons.prems(1) by (auto simp: Let_def bindR_eq_Inr)
    have w2: "clean_step w w2" "\<not> bound w2"
      using clean_trans [OF w1 balanced [OF s(1)]] balanced [OF s(1)] Cons.prems(2) by (simp_all add: clean_step_def)
    show ?thesis
    proof (cases "result = 0")
      case False
      let ?w3 = "reconnect_pause (map (sr_wait r) [0..<6]) w2"
      have "clean_step w2 ?w3" using reconnect_clean [OF w2(2)] .
      moreover from this have "clean_step ?w3 w'" using Cons.IH s(2) False by (simp add: clean_step_def)
      ultimately show ?thesis using w2(1) by (blast intro: clean_trans)
    qed (use s(2) w2(1) in simp)
  qed
qed simp

end

section \<open>Properties\<close>

text \<open>
  C2: Watch mode implements a switch: whatever clients send at any time, during sessions, between
  them and in the pause before a retry, the daemon connects only while the last enable or disable
  command was enable, and at the end its flag is what the switch makes of all the commands polled.
\<close>

theorem watch_refines_switch:
  assumes "watch_loop (configured_session cfg) written rs w = Inr w'"
  shows "\<exists>cs. w_calls w' = w_calls w @ cs \<and>
    switch_run (g_watch_enabled (w_globals w)) cs = Some (g_watch_enabled (w_globals w'))"
  using rndis_session.watch_follows [OF assms] by (simp add: follows_clean_def tracks_def)

text \<open>A daemon whose client sends a disable command, and one round later a signal arrives.\<close>

definition demo_listening :: "buffer list world" where
  "demo_listening = (demo_world True)\<lparr>w_ipc := Some demo_server\<rparr>"

definition demo_round :: "tick \<Rightarrow> (buffer list, int) session_env watch_round" where
  "demo_round k = \<lparr>wr_poll = k, wr_session = demo_env, wr_wait = (\<lambda>_. demo_tick 0)\<rparr>"

definition demo_rounds :: "(buffer list, int) session_env watch_round list" where
  "demo_rounds =
     [demo_round ((demo_tick 0)\<lparr>k_reads := \<lambda>_. Data (quote @ ''disable'' @ quote)\<rparr>),
      demo_round ((demo_tick 1)\<lparr>k_signal := True\<rparr>)]"

lemma demo_watch:
  "\<exists>w'. watch_loop (configured_session cfg) (\<lambda>_ _. 1) demo_rounds demo_listening = Inr w' \<and>
     \<not> g_watch_enabled (w_globals w')"
  by (simp add: demo_rounds_def demo_round_def demo_tick_def demo_listening_def demo_world_def demo_server_def Let_def
      interrupted_def signal_handler_def watch_poll_def poll_ipc_def ipc_server_poll_def poll_client_def accept_client_def
      c_string_def upt_rec watch_command_def set_enabled_def announce_def command_of_def quote_def)

lemma watch_refines_switch_witness:
  "\<exists>cs. switch_run True cs = Some False"
proof -
  obtain w' where w: "watch_loop (configured_session config_init_defaults) (\<lambda>_ _. 1) demo_rounds demo_listening = Inr w'"
    "\<not> g_watch_enabled (w_globals w')" using demo_watch by blast
  have "g_watch_enabled (w_globals demo_listening)" by (simp add: demo_listening_def demo_world_def)
  with watch_refines_switch [OF w(1)] w(2) show ?thesis by auto
qed

text \<open>
  C16: The daemon in watch mode persists: as long as no signal arrives and no stop file appears, no
  command of a client, no lost device and no failing session makes the watch loop return.
\<close>

theorem watch_mode_persists:
  assumes "list_all (\<lambda>r. \<not> k_signal (wr_poll r) \<and> undisturbed (wr_session r) \<and> (\<forall>i < 6. \<not> k_signal (wr_wait r i))) rs"
    and "g_watch_mode (w_globals w)" "g_running (w_globals w)" "w_files w STOP_TRIGGER_PATH = None"
  shows "watch_loop (configured_session cfg) written rs w \<noteq> Inr w'"
  using rndis_session.watch_persists [OF assms(1)] assms(2-4) by (simp add: alive_def)

lemma watch_mode_persists_witness:
  "watch_loop (configured_session config_init_defaults) (\<lambda>_ _. 1) [demo_round (demo_tick 0), demo_round (demo_tick 9)]
     (demo_world True) \<noteq> Inr (demo_world True)"
proof (rule watch_mode_persists)
  show "list_all (\<lambda>r. \<not> k_signal (wr_poll r) \<and> undisturbed (wr_session r) \<and> (\<forall>i < 6. \<not> k_signal (wr_wait r i)))
      [demo_round (demo_tick 0), demo_round (demo_tick 9)]"
    by (simp add: demo_round_def demo_tick_def demo_env_def undisturbed_def)
qed (simp_all add: demo_world_def)

lemma finish_run: "bindR x (\<lambda>w'. Inr (0, f w')) = Inr (s, w) \<Longrightarrow> \<exists>w3. x = Inr w3 \<and> w = f w3 \<and> s = 0"
  by (auto simp: bindR_eq_Inr)

lemma leave_unbinds: "\<not> bound w \<Longrightarrow> leave w = w\<lparr>w_files := stats_cleanup (w_files w)\<rparr>"
  by (simp add: leave_def cleanup_at_exit_def restore_network_state_def bound_def act_def)

text \<open>
  C5: The program cleans up after itself: whatever its arguments, configuration and devices, when
  \<open>main\<close> returns and the exit handler has run, every session has given back its device, driver,
  descriptor and transmit slots, the network is unbound, and the status is 0 or 1; where the daemon
  ran, the statistics files are gone and the server has been destroyed.
\<close>

theorem daemon_cleans_up:
  assumes "daemon_main env fs d = Inr (status, w)"
  shows "gives_back (w_calls w) \<and> \<not> g_network_bound (w_globals w) \<and> (status = 0 \<or> status = 1) \<and>
    (w_calls w \<noteq> [] \<longrightarrow> w_files w STATS_JSON_PATH = None \<and> w_files w STATS_JSON_TMP_PATH = None \<and>
      (\<exists>before. w_calls w = before @ map Ipc (ipc_server_destroy (w_ipc w))))"
proof -
  let ?w0 = "\<lparr>w_globals = start_globals, w_ipc = None, w_dev = d, w_files = fs, w_calls = []\<rparr>"
  obtain res cfg where c: "config_apply_cli fs (snd (config_load_default fs (m_home env) (m_pw_dir env) config_init_defaults))
      (m_args env) = (res, cfg)" by fastforce
  have early: "gives_back []" by (simp add: gives_back_def)
  consider "w = ?w0" "status = 0 \<or> status = 1" | "daemon_run env cfg ?w0 = Inr (status, w)"
    using assms c by (auto simp: daemon_main_def Let_def split: cli_result.splits if_splits)
  then show ?thesis
  proof cases
    case 1
    then show ?thesis using early by (simp add: start_globals_def)
  next
    case 2
    obtain srv calls where s: "ipc_server_create (m_ipc_mem env) (m_ipc_fd env) (m_ipc_bind env) (m_sudo env) (m_listen env) =
        (srv, calls)" by fastforce
    let ?w1 = "act (map Ipc calls) (?w0\<lparr>w_globals := configured cfg, w_ipc := srv\<rparr>)"
    have w1: "gives_back (w_calls ?w1)" "\<not> bound ?w1"
      by (simp_all add: bound_def configured_def start_globals_def gives_back_neutral)
    have w2: "clean_step ?w1 (announce (m_written env) ''idle'' ?w1)" "clean_step ?w1 ?w1"
      using announce_between [of ?w1] between_refl [of ?w1] w1(2) unfolding between_def by blast+
    obtain w3 where w3: "w = leave (close_ipc w3)" "status = 0" "clean_step ?w1 w3"
    proof (cases "watch_mode cfg")
      case True
      let ?w2 = "if srv \<noteq> None then announce (m_written env) ''idle'' ?w1 else ?w1"
      have "bindR (watch_loop (configured_session cfg) (m_written env) (m_watch env) ?w2)
          (\<lambda>w'. Inr (0, leave (close_ipc w'))) = Inr (status, w)"
        using 2 s True by (cases srv) (simp_all add: daemon_run_def Let_def)
      from finish_run [OF this] obtain w3 where
        "watch_loop (configured_session cfg) (m_written env) (m_watch env) ?w2 = Inr w3"
        "w = leave (close_ipc w3)" "status = 0" by blast
      moreover have "clean_step ?w1 ?w2" using w2 by (cases srv) simp_all
      ultimately show ?thesis
        using that clean_follows rndis_session.watch_follows by blast
    next
      case False
      have "bindR (shot_loop (configured_session cfg) (m_shots env) ?w1)
          (\<lambda>w'. Inr (0, leave (close_ipc w'))) = Inr (status, w)"
        using 2 s False by (simp add: daemon_run_def Let_def)
      from finish_run [OF this] obtain w3 where "shot_loop (configured_session cfg) (m_shots env) ?w1 = Inr w3"
        "w = leave (close_ipc w3)" "status = 0" by blast
      then show ?thesis using that rndis_session.shot_clean [of cfg "m_shots env" ?w1 w3] w1(2) by blast
    qed
    have "\<not> bound (close_ipc w3)" using w3(3) by (simp add: close_ipc_def clean_step_def)
    from leave_unbinds [OF this] have w: "w = (close_ipc w3)\<lparr>w_files := stats_cleanup (w_files (close_ipc w3))\<rparr>"
      using w3(1) by simp
    have "gives_back (w_calls w3)" using w3(3) w1(1) by (auto simp: clean_step_def intro: gives_back_append)
    then have "gives_back (w_calls w3 @ map Ipc (ipc_server_destroy (w_ipc w3)))"
      by (rule gives_back_append) (simp add: gives_back_neutral)
    moreover have "\<not> g_network_bound (w_globals w3)" using w3(3) by (simp add: clean_step_def bound_def)
    ultimately show ?thesis using w3(2) by (simp add: w close_ipc_def stats_cleanup_def)
  qed
qed

definition demo_daemon :: "(buffer list, int) daemon_env" where
  "demo_daemon = \<lparr>m_home = None, m_pw_dir = None, m_args = [''-w''], m_root = True, m_ipc_mem = True,
     m_ipc_fd = 4, m_ipc_bind = True, m_sudo = False, m_listen = True, m_written = (\<lambda>_ _. 1),
     m_watch = [demo_round ((demo_tick 1)\<lparr>k_signal := True\<rparr>)], m_shots = []\<rparr>"

lemma demo_config:
  "config_apply_cli Map.empty (snd (config_load_default Map.empty None None config_init_defaults)) [''-w''] =
     (Cli_Return 0, config_init_defaults\<lparr>watch_mode := True\<rparr>)"
  by (simp add: config_apply_cli_def config_load_default_def config_default_path_def next_option_def short_opts_def
      cli_option_def)

lemma demo_daemon_runs: "\<exists>w. daemon_main demo_daemon Map.empty [] = Inr (0, w) \<and> w_calls w \<noteq> []"
  by (simp add: daemon_main_def demo_daemon_def demo_config daemon_run_def demo_round_def demo_tick_def Let_def
      ipc_server_create_def configured_def start_globals_def interrupted_def signal_handler_def
      announce_def leave_unbinds close_ipc_def bound_def)

lemma daemon_cleans_up_witness:
  "\<exists>w. daemon_main demo_daemon Map.empty [] = Inr (0, w) \<and> gives_back (w_calls w) \<and> w_calls w \<noteq> [] \<and>
     w_files w STATS_JSON_PATH = None"
proof -
  obtain w where w: "daemon_main demo_daemon Map.empty [] = Inr (0, w)" "w_calls w \<noteq> []" using demo_daemon_runs by blast
  with daemon_cleans_up [OF w(1)] show ?thesis by blast
qed

text \<open>
  A finding: in the pause of the one-shot mode only the stop command counts; a disable or enable
  command that arrives there is taken off the queue and has no effect.
\<close>

lemma pause_loses_commands:
  assumes "poll_ipc k w = (cmd, w')" "cmd \<noteq> IPC_CMD_STOP" "w_ipc w = Some srv" "g_ui_pid (w_globals w) = 0" "\<not> k_stop_file k"
    "w_files w STOP_TRIGGER_PATH = None"
  shows "reconnect_poll k w = w'"
  using assms by (simp add: reconnect_poll_def ui_died_def poll_trigger_def stats_check_stop_trigger_def stop_daemon_def)

end
